theory Spec2Isabelle
  imports Complex_Main "HOL-Library.Multiset"
begin

section \<open>Data model (models.py)\<close>

text \<open>
  Python floats (\<open>actual_points\<close>, \<open>total_points\<close>, the regret scores) are modelled by
  real numbers: the arithmetic is exact and rounding is not part of the model.
  Python integers are \<open>int\<close>, strings are \<open>string\<close>, Python sets of names are
  \<open>string set\<close>.
\<close>

record player =
  name :: string
  position :: string
  team :: string
  adp_rank :: int
  auction_value :: int
  actual_points :: real
  bye_week :: int

text \<open>
  \<open>Player(name, position, team, adp_rank, auction_value=0, actual_points=0, bye_week=0)\<close>:
  the constructor with its keyword defaults; an omitted argument is \<open>None\<close>.
\<close>

definition Player ::
  "string \<Rightarrow> string \<Rightarrow> string \<Rightarrow> int \<Rightarrow> int option \<Rightarrow> real option \<Rightarrow> int option \<Rightarrow> player" where
  "Player n pos t adp av ap bw =
     \<lparr>name = n, position = pos, team = t, adp_rank = adp,
      auction_value = (case av of None \<Rightarrow> 0 | Some v \<Rightarrow> v),
      actual_points = (case ap of None \<Rightarrow> 0 | Some v \<Rightarrow> v),
      bye_week = (case bw of None \<Rightarrow> 0 | Some v \<Rightarrow> v)\<rparr>"

text \<open>
  The roster dict of a \<open>Team\<close> is created with exactly the six keys
  \<open>'QB', 'RB', 'WR', 'TE', 'FLEX', 'K'\<close> and no key is ever added or removed, so it is a
  total function on the six slots. A position string \<open>s\<close> satisfies
  \<open>s in self.roster\<close> exactly when \<open>slot_of s\<close> is not \<open>None\<close>.
\<close>

datatype slot = QB | RB | WR | TE | FLEX | K

fun slot_name :: "slot \<Rightarrow> string" where
  "slot_name QB = ''QB''"
| "slot_name RB = ''RB''"
| "slot_name WR = ''WR''"
| "slot_name TE = ''TE''"
| "slot_name FLEX = ''FLEX''"
| "slot_name K = ''K''"

definition slot_of :: "string \<Rightarrow> slot option" where
  "slot_of s =
     (if s = ''QB'' then Some QB
      else if s = ''RB'' then Some RB
      else if s = ''WR'' then Some WR
      else if s = ''TE'' then Some TE
      else if s = ''FLEX'' then Some FLEX
      else if s = ''K'' then Some K
      else None)"

text \<open>\<open>DRAFT_CONFIG\<close>.\<close>

definition num_teams :: int where
  "num_teams = 10"

definition draft_position :: int where
  "draft_position = 5"

definition roster_spots :: "(slot \<times> nat) list" where
  "roster_spots = [(QB, 1), (RB, 2), (WR, 2), (TE, 1), (FLEX, 1), (K, 1)]"

definition total_picks :: int where
  "total_picks = 8"

record team_rec =
  team_id :: int
  roster :: "slot \<Rightarrow> player list"
  total_points :: real
  draft_picks :: "player list"

definition Team :: "int \<Rightarrow> team_rec" where
  "Team i = \<lparr>team_id = i, roster = (\<lambda>_. []), total_points = 0, draft_picks = []\<rparr>"

definition skill_positions :: "string list" where
  "skill_positions = [''RB'', ''WR'', ''TE'']"

definition roster_append :: "team_rec \<Rightarrow> slot \<Rightarrow> player \<Rightarrow> team_rec" where
  "roster_append tm s p = tm\<lparr>roster := (roster tm)(s := roster tm s @ [p])\<rparr>"

text \<open>
  \<open>Team.add_player(player, position=None)\<close>. The branches are those of the source, in
  its order; in the last one nothing is appended to any slot.
\<close>

definition add_player :: "team_rec \<Rightarrow> player \<Rightarrow> string option \<Rightarrow> team_rec" where
  "add_player tm p position_arg =
     (let pos = (case position_arg of None \<Rightarrow> position p | Some s \<Rightarrow> s);
          tm1 =
            (if pos = ''FLEX'' \<and> position p \<in> set skill_positions then roster_append tm FLEX p
             else case slot_of pos of
               Some s \<Rightarrow> roster_append tm s p
             | None \<Rightarrow>
                 (case slot_of (position p) of
                    Some s \<Rightarrow> roster_append tm s p
                  | None \<Rightarrow>
                      if position p \<in> set skill_positions then roster_append tm FLEX p
                      else tm))
      in tm1\<lparr>total_points := total_points tm1 + actual_points p,
              draft_picks := draft_picks tm1 @ [p]\<rparr>)"

definition get_needs :: "team_rec \<Rightarrow> string list" where
  "get_needs tm =
     map (\<lambda>(s, max_count). slot_name s)
       (filter (\<lambda>(s, max_count). length (roster tm s) < max_count) roster_spots)"

definition is_complete :: "team_rec \<Rightarrow> bool" where
  "is_complete tm = (length (get_needs tm) = 0)"

text \<open>The sum of \<open>actual_points\<close> over all players stored in the roster slots.\<close>

definition roster_points :: "team_rec \<Rightarrow> real" where
  "roster_points tm =
     sum_list (map (\<lambda>(s, max_count). sum_list (map actual_points (roster tm s))) roster_spots)"

section \<open>Snake order (draft\_simulator.py)\<close>

text \<open>
  \<open>range(1, num_teams + 1)\<close> is \<open>[1..n]\<close> and \<open>range(num_teams, 0, -1)\<close> is its
  reversal; both are empty for \<open>n < 1\<close>. The loop over \<open>range(num_rounds)\<close> extends the
  accumulated order round by round.
\<close>

fun snake_rounds :: "int \<Rightarrow> nat list \<Rightarrow> int list \<Rightarrow> int list" where
  "snake_rounds n [] draft_order = draft_order"
| "snake_rounds n (round_num # rest) draft_order =
     snake_rounds n rest
       (if round_num mod 2 = 0 then draft_order @ [1..n] else draft_order @ rev [1..n])"

definition generate_snake_draft_order :: "int \<Rightarrow> int \<Rightarrow> int list" where
  "generate_snake_draft_order n num_rounds = snake_rounds n [0..<nat num_rounds] []"

section \<open>Greedy strategy (algorithms.py)\<close>

text \<open>
  Both strategy classes keep a Python set \<open>drafted_players\<close>; the common attribute is
  the base record, each class extends it with its own copy of the pool.
\<close>

record algorithm_state =
  drafted_players :: "string set"

record greedy = algorithm_state +
  available_players :: "player list"

text \<open>
  \<open>GreedyDraftAlgorithm.__init__\<close>: every player is rebuilt with the six arguments the
  source passes (\<open>bye_week\<close> is not among them), then the list is sorted by ADP rank;
  Python's \<open>list.sort\<close> is stable, as \<open>sort_key\<close> is.
\<close>

definition GreedyDraftAlgorithm :: "player list \<Rightarrow> greedy" where
  "GreedyDraftAlgorithm players =
     \<lparr>drafted_players = {},
      available_players =
        sort_key adp_rank
          (map (\<lambda>p. Player (name p) (position p) (team p) (adp_rank p)
                       (Some (auction_value p)) (Some (actual_points p)) None) players)\<rparr>"

text \<open>The first loop of \<open>draft_player\<close>: the first undrafted player that fits a need.\<close>

fun greedy_scan :: "string list \<Rightarrow> string set \<Rightarrow> player list \<Rightarrow> player option" where
  "greedy_scan needs drafted [] = None"
| "greedy_scan needs drafted (p # ps) =
     (if name p \<in> drafted then greedy_scan needs drafted ps
      else if position p \<in> set needs then Some p
      else if ''FLEX'' \<in> set needs \<and> position p \<in> set skill_positions then Some p
      else greedy_scan needs drafted ps)"

text \<open>The second loop: the first undrafted player, whatever the position.\<close>

fun greedy_fallback :: "string set \<Rightarrow> player list \<Rightarrow> player option" where
  "greedy_fallback drafted [] = None"
| "greedy_fallback drafted (p # ps) =
     (if name p \<notin> drafted then Some p else greedy_fallback drafted ps)"

definition greedy_draft_player :: "greedy \<Rightarrow> team_rec \<Rightarrow> player option \<times> greedy" where
  "greedy_draft_player g tm =
     (let needs = get_needs tm in
      if needs = [] then (None, g)
      else case greedy_scan needs (drafted_players g) (available_players g) of
        Some p \<Rightarrow> (Some p, g\<lparr>drafted_players := insert (name p) (drafted_players g)\<rparr>)
      | None \<Rightarrow>
          (case greedy_fallback (drafted_players g) (available_players g) of
             Some p \<Rightarrow> (Some p, g\<lparr>drafted_players := insert (name p) (drafted_players g)\<rparr>)
           | None \<Rightarrow> (None, g)))"

text \<open>
  The selection rule in the words of the specification: the first undrafted player of the
  list whose position is a direct need, or who is RB/WR/TE while FLEX is a need; when
  there is none, the first undrafted player of the list.
\<close>

definition spec_greedy_pick :: "string list \<Rightarrow> string set \<Rightarrow> player list \<Rightarrow> player option" where
  "spec_greedy_pick needs drafted adp_sorted =
     (case find (\<lambda>p. name p \<notin> drafted \<and>
                      (position p \<in> set needs \<or>
                       (position p \<in> {''RB'', ''WR'', ''TE''} \<and> ''FLEX'' \<in> set needs)))
             adp_sorted of
        Some p \<Rightarrow> Some p
      | None \<Rightarrow> find (\<lambda>p. name p \<notin> drafted) adp_sorted)"

section \<open>Regret strategy (algorithms.py)\<close>

text \<open>
  \<open>max(values, default=1)\<close> of \<open>_cache_max_values\<close>. The dict \<open>position_counts\<close> that
  the same method fills is never read again and is left out of the state.
\<close>

fun max_default :: "int list \<Rightarrow> int \<Rightarrow> int" where
  "max_default [] d = d"
| "max_default (v # vs) d = fold max vs v"

record regret = algorithm_state +
  all_players :: "player list"
  max_auction :: int

definition RegretDraftAlgorithm :: "player list \<Rightarrow> regret" where
  "RegretDraftAlgorithm players =
     (let copies =
            map (\<lambda>p. Player (name p) (position p) (team p) (adp_rank p)
                        (Some (auction_value p)) (Some (actual_points p)) None) players
      in \<lparr>drafted_players = {}, all_players = copies,
          max_auction = max_default (map auction_value copies) 1\<rparr>)"

definition get_available_players :: "regret \<Rightarrow> player list" where
  "get_available_players r = filter (\<lambda>p. name p \<notin> drafted_players r) (all_players r)"

text \<open>
  \<open>numpy.percentile(values, 75)\<close> with numpy's default linear interpolation: on the
  sorted values \<open>s\<close> of length \<open>n\<close> the virtual index is \<open>0.75 * (n - 1)\<close>, and the result
  interpolates between the two neighbouring entries. The index is kept as the integer
  quotient and remainder of \<open>3 * (n - 1)\<close> by 4. The source calls it on lists of at
  least two values only; on the empty list (where numpy has no value) the model gives 0.
\<close>

definition percentile75 :: "int list \<Rightarrow> real" where
  "percentile75 vs =
     (if vs = [] then 0
      else let s = sort vs;
               n = length vs;
               lo = (3 * (n - 1)) div 4;
               fr = (3 * (n - 1)) mod 4;
               hi = min (lo + 1) (n - 1)
           in real_of_int (s ! lo) + (real fr / 4) * real_of_int (s ! hi - s ! lo))"

definition available_at_position :: "regret \<Rightarrow> string \<Rightarrow> player list" where
  "available_at_position r pos =
     filter (\<lambda>p. position p = pos \<and> name p \<notin> drafted_players r) (all_players r)"

definition quality_players :: "int list \<Rightarrow> nat" where
  "quality_players auction_values =
     length (filter (\<lambda>v. percentile75 auction_values \<le> real_of_int v) auction_values)"

definition calculate_positional_scarcity :: "regret \<Rightarrow> string \<Rightarrow> real" where
  "calculate_positional_scarcity r pos =
     (let avail = available_at_position r pos in
      if avail = [] then 0
      else if length avail = 1 then 1
      else let auction_values = map auction_value avail in
        if length auction_values < 2 then 1
        else let scarcity = max (1 / 10) (1 / real (max 1 (quality_players auction_values)))
             in min 1 scarcity)"

text \<open>
  \<open>list.sort(key=..., reverse=True)\<close> keeps equal keys in their original order: CPython
  reverses the list, sorts it stably in ascending order and reverses the result.
\<close>

definition sort_key_desc :: "('a \<Rightarrow> 'k::linorder) \<Rightarrow> 'a list \<Rightarrow> 'a list" where
  "sort_key_desc f xs = rev (sort_key f (rev xs))"

definition calculate_value_dropoff :: "regret \<Rightarrow> string \<Rightarrow> real" where
  "calculate_value_dropoff r pos =
     (let avail = available_at_position r pos in
      if length avail < 2 then 0
      else case sort_key_desc auction_value avail of
        best # second # rest \<Rightarrow>
          (let best_value = auction_value best;
               second_best_value = auction_value second
           in if best_value \<le> 0 then 0
              else let dropoff = max 0 (best_value - second_best_value);
                       normalized_dropoff = real_of_int dropoff / real_of_int best_value
                   in min 1 normalized_dropoff)
      | _ \<Rightarrow> 0)"

definition calculate_pick_urgency :: "int \<Rightarrow> real" where
  "calculate_pick_urgency picks_until_next =
     (let normalized_picks = min 19 (max 1 picks_until_next)
      in real_of_int normalized_picks / 19)"

text \<open>\<open>team.roster.values()\<close> runs over the slots in the dict's insertion order.\<close>

definition team_bye_weeks :: "team_rec \<Rightarrow> int list" where
  "team_bye_weeks tm = concat (map (\<lambda>s. map bye_week (roster tm s)) [QB, RB, WR, TE, FLEX, K])"

definition calculate_regret_score :: "regret \<Rightarrow> player \<Rightarrow> team_rec \<Rightarrow> int \<Rightarrow> real" where
  "calculate_regret_score r p tm picks_until_next =
     (let value_score =
            (if max_auction r > 0
             then real_of_int (auction_value p) / real_of_int (max_auction r) else 0);
          scarcity = calculate_positional_scarcity r (position p);
          dropoff = calculate_value_dropoff r (position p);
          urgency = calculate_pick_urgency picks_until_next;
          bye_penalty = (if bye_week p \<in> set (team_bye_weeks tm) then 5 / 100 else 0);
          scarcity_component = scarcity * dropoff * (4 / 10);
          urgency_component = urgency * (3 / 10);
          value_component = value_score * (3 / 10);
          regret_score = value_component + scarcity_component + urgency_component - bye_penalty
      in max 0 regret_score)"

definition fills_need :: "string list \<Rightarrow> player \<Rightarrow> bool" where
  "fills_need needs p =
     (if position p \<in> set needs then True
      else if ''FLEX'' \<in> set needs \<and> position p \<in> set skill_positions then True
      else False)"

text \<open>
  The candidate list of \<open>draft_player\<close>: the scored undrafted players that fill a need,
  or all scored undrafted players when none does.
\<close>

definition regret_candidates :: "regret \<Rightarrow> team_rec \<Rightarrow> int \<Rightarrow> (real \<times> player) list" where
  "regret_candidates r tm picks_until_next =
     (let needs = get_needs tm;
          avail = get_available_players r;
          candidates =
            map (\<lambda>p. (calculate_regret_score r p tm picks_until_next, p))
              (filter (fills_need needs) avail)
      in if candidates = []
         then map (\<lambda>p. (calculate_regret_score r p tm picks_until_next, p)) avail
         else candidates)"

definition regret_draft_player :: "regret \<Rightarrow> team_rec \<Rightarrow> int \<Rightarrow> player option \<times> regret" where
  "regret_draft_player r tm picks_until_next =
     (if get_needs tm = [] then (None, r)
      else if get_available_players r = [] then (None, r)
      else case sort_key_desc fst (regret_candidates r tm picks_until_next) of
        [] \<Rightarrow> (None, r)
      | best # rest \<Rightarrow>
          (Some (snd best), r\<lparr>drafted_players := insert (name (snd best)) (drafted_players r)\<rparr>))"

text \<open>
  The claimed formula for the regret score, in the words of the specification, over a
  0/1 bye-clash flag.
\<close>

definition spec_regret_formula :: "regret \<Rightarrow> player \<Rightarrow> bool \<Rightarrow> int \<Rightarrow> real" where
  "spec_regret_formula r p bye_clash picks_until_next =
     max 0 (3 / 10 * (real_of_int (auction_value p) / real_of_int (max_auction r))
            + 4 / 10 * calculate_positional_scarcity r (position p)
                * calculate_value_dropoff r (position p)
            + 3 / 10 * calculate_pick_urgency picks_until_next
            - (if bye_clash then 5 / 100 else 0))"

text \<open>
  Positional scarcity in the words of the specification: 0 with no undrafted player at
  the position, 1 with exactly one, otherwise \<open>1 / quality_players\<close> clamped to
  \<open>[0.1, 1.0]\<close>.
\<close>

definition clamp :: "real \<Rightarrow> real \<Rightarrow> real \<Rightarrow> real" where
  "clamp x lo hi = (if x < lo then lo else if hi < x then hi else x)"

definition spec_scarcity :: "regret \<Rightarrow> string \<Rightarrow> real" where
  "spec_scarcity r pos =
     (let remaining = filter (\<lambda>p. name p \<notin> drafted_players r \<and> position p = pos) (all_players r)
      in if length remaining = 0 then 0
         else if length remaining = 1 then 1
         else clamp (1 / real (quality_players (map auction_value remaining))) (1 / 10) 1)"

section \<open>Draft engine (draft\_simulator.py)\<close>

text \<open>
  \<open>simulate_draft\<close> takes the strategy class as an argument and reaches its instances
  only through attributes it tests with \<open>hasattr\<close>. A strategy class is therefore a
  record of the operations the engine uses, over the class's own instance type \<open>'s\<close>:
  \<^item> \<open>construct\<close>: \<open>algorithm_class(algorithm_players)\<close>;
  \<^item> \<open>add_drafted names\<close>: \<open>algorithm.drafted_players.update(names)\<close> (or \<open>.add(name)\<close>
    for a single name) when the instance has the attribute, nothing otherwise;
  \<^item> \<open>draft_player\<close>: \<open>algorithm.draft_player(team, picks_until_next)\<close>, or
    \<open>algorithm.draft_player(team)\<close> when the method has no such parameter;
  \<^item> \<open>update_available_players\<close>: the optional hook, nothing when it is absent.
\<close>

record 's algorithm_class =
  construct :: "player list \<Rightarrow> 's"
  add_drafted :: "string set \<Rightarrow> 's \<Rightarrow> 's"
  draft_player :: "'s \<Rightarrow> team_rec \<Rightarrow> int \<Rightarrow> player option \<times> 's"
  update_available_players :: "'s \<Rightarrow> 's"

definition greedy_class :: "greedy algorithm_class" where
  "greedy_class =
     \<lparr>construct = GreedyDraftAlgorithm,
      add_drafted = (\<lambda>names g. g\<lparr>drafted_players := drafted_players g \<union> names\<rparr>),
      draft_player = (\<lambda>g tm picks_until_next. greedy_draft_player g tm),
      update_available_players = (\<lambda>g. g)\<rparr>"

definition regret_class :: "regret algorithm_class" where
  "regret_class =
     \<lparr>construct = RegretDraftAlgorithm,
      add_drafted = (\<lambda>names r. r\<lparr>drafted_players := drafted_players r \<union> names\<rparr>),
      draft_player = regret_draft_player,
      update_available_players = (\<lambda>r. r)\<rparr>"

text \<open>
  The state of the pick loop. The dict \<open>team_algorithms\<close> has the keys
  \<open>1..num_teams\<close>, inserted in that order: it is the list of its values, the instance of
  team \<open>k\<close> at index \<open>k - 1\<close>, as \<open>teams\<close> is.
\<close>

record 's draft_state =
  teams :: "team_rec list"
  team_algorithms :: "'s list"
  globally_drafted :: "string set"

fun index_of :: "'a \<Rightarrow> 'a list \<Rightarrow> nat option" where
  "index_of x [] = None"
| "index_of x (y # ys) =
     (if y = x then Some 0 else map_option Suc (index_of x ys))"

definition calculate_picks_until_next :: "nat \<Rightarrow> int \<Rightarrow> int list \<Rightarrow> int" where
  "calculate_picks_until_next current_pick tid draft_order =
     (if tid \<noteq> draft_position then 11
      else let remaining_picks = drop (current_pick + 1) draft_order in
        case index_of draft_position remaining_picks of
          Some next_our_pick \<Rightarrow> int next_our_pick + 1
        | None \<Rightarrow> int (length remaining_picks) + 1)"

text \<open>
  \<open>_execute_draft_pick\<close>: the instance is brought up to date with the global set, asked
  for a player, and a player whose name is already in the global set is answered by
  \<open>None\<close>. The instance keeps whatever the call did to it.
\<close>

definition execute_draft_pick ::
  "'s algorithm_class \<Rightarrow> 's \<Rightarrow> team_rec \<Rightarrow> int \<Rightarrow> string set \<Rightarrow> player option \<times> 's" where
  "execute_draft_pick cls algorithm tm picks_until_next drafted =
     (let a1 = add_drafted cls drafted algorithm;
          (res, a2) = draft_player cls a1 tm picks_until_next
      in case res of
           Some p \<Rightarrow> if name p \<in> drafted then (None, a2) else (Some p, a2)
         | None \<Rightarrow> (None, a2))"

definition determine_roster_position :: "player \<Rightarrow> team_rec \<Rightarrow> string" where
  "determine_roster_position p tm =
     (let needs = get_needs tm in
      if position p \<in> set needs then position p
      else if ''FLEX'' \<in> set needs \<and> position p \<in> set skill_positions then ''FLEX''
      else position p)"

definition update_all_algorithms :: "'s algorithm_class \<Rightarrow> 's list \<Rightarrow> string \<Rightarrow> 's list" where
  "update_all_algorithms cls algs drafted_player_name =
     map (\<lambda>a. update_available_players cls (add_drafted cls {drafted_player_name} a)) algs"

text \<open>
  The pick loop of \<open>simulate_draft\<close> over \<open>enumerate(draft_order)\<close>; \<open>n_players\<close> is
  \<open>len(players)\<close>. The test \<open>len(globally_drafted) >= len(players) * 0.9\<close> is taken in
  exact arithmetic. Team ids come from the snake order and lie in \<open>1..num_teams\<close>, so
  the index \<open>team_id - 1\<close> is in range.
\<close>

fun draft_loop ::
  "'s algorithm_class \<Rightarrow> nat \<Rightarrow> int list \<Rightarrow> nat \<Rightarrow> int list \<Rightarrow> 's draft_state \<Rightarrow> 's draft_state" where
  "draft_loop cls n_players draft_order pick_num [] st = st"
| "draft_loop cls n_players draft_order pick_num (tid # rest) st =
     (let idx = nat (tid - 1);
          current_team = teams st ! idx;
          current_algorithm = team_algorithms st ! idx;
          picks_until_next = calculate_picks_until_next pick_num tid draft_order;
          (drafted_player, a) =
             execute_draft_pick cls current_algorithm current_team picks_until_next
               (globally_drafted st);
          st1 = st\<lparr>team_algorithms := (team_algorithms st)[idx := a]\<rparr>
      in case drafted_player of
           Some p \<Rightarrow>
             draft_loop cls n_players draft_order (Suc pick_num) rest
               \<lparr>teams = (teams st1)[idx :=
                   add_player current_team p (Some (determine_roster_position p current_team))],
                team_algorithms = update_all_algorithms cls (team_algorithms st1) (name p),
                globally_drafted = insert (name p) (globally_drafted st1)\<rparr>
         | None \<Rightarrow>
             if 9 * n_players \<le> 10 * card (globally_drafted st1) then st1
             else draft_loop cls n_players draft_order (Suc pick_num) rest st1)"

text \<open>
  \<open>simulate_draft\<close> from the list \<open>players\<close> on (building that list from the season's
  tables is the data loader's work). \<open>simulate_draft_state\<close> is the state the loop ends
  in; \<open>simulate_draft\<close> returns \<open>(our_team, teams)\<close> from it, or \<open>None\<close> for an empty pool.
\<close>

definition actual_rounds :: "player list \<Rightarrow> int" where
  "actual_rounds players =
     (let total_picks_needed = num_teams * total_picks in
      if int (length players) < total_picks_needed
      then (let max_picks_per_team = max 1 (int (length players) div num_teams)
            in min total_picks max_picks_per_team)
      else total_picks)"

definition simulate_draft_state :: "'s algorithm_class \<Rightarrow> player list \<Rightarrow> 's draft_state" where
  "simulate_draft_state cls players =
     (let draft_order = generate_snake_draft_order num_teams (actual_rounds players)
      in draft_loop cls (length players) draft_order 0 draft_order
           \<lparr>teams = map Team [1..num_teams],
            team_algorithms =
              map (\<lambda>tid. construct cls
                     (map (\<lambda>p. Player (name p) (position p) (team p) (adp_rank p)
                                  (Some (auction_value p)) (Some (actual_points p))
                                  (Some (bye_week p))) players))
                [1..num_teams],
            globally_drafted = {}\<rparr>)"

definition simulate_draft ::
  "'s algorithm_class \<Rightarrow> player list \<Rightarrow> (team_rec \<times> team_rec list) option" where
  "simulate_draft cls players =
     (if players = [] then None
      else let st = simulate_draft_state cls players
           in Some (teams st ! nat (draft_position - 1), teams st))"

text \<open>The players stored in the roster slots of a team, slot by slot.\<close>

definition roster_players :: "team_rec \<Rightarrow> player list" where
  "roster_players tm = concat (map (\<lambda>(s, max_count). roster tm s) roster_spots)"

section \<open>Test inputs\<close>

text \<open>
  A strategy class without a \<open>drafted_players\<close> attribute and without the hook: it
  always offers the first player of its pool and counts the calls of \<open>draft_player\<close>.
\<close>

record first_only =
  pool :: "player list"
  calls :: nat

definition first_only_class :: "first_only algorithm_class" where
  "first_only_class =
     \<lparr>construct = (\<lambda>players. \<lparr>pool = players, calls = 0\<rparr>),
      add_drafted = (\<lambda>names a. a),
      draft_player = (\<lambda>a tm picks_until_next.
         (case pool a of [] \<Rightarrow> None | p # ps \<Rightarrow> Some p, a\<lparr>calls := calls a + 1\<rparr>)),
      update_available_players = (\<lambda>a. a)\<rparr>"

text \<open>The pools of the repository's test suite, a fresh team being \<open>Team 1\<close>.\<close>

definition greedy_test_pool :: "player list" where
  "greedy_test_pool =
     [Player ''Player1'' ''QB'' ''T1'' 1 (Some 50) (Some 300) None,
      Player ''Player2'' ''RB'' ''T2'' 2 (Some 45) (Some 250) None,
      Player ''Player3'' ''WR'' ''T3'' 3 (Some 40) (Some 200) None,
      Player ''Player4'' ''TE'' ''T4'' 4 (Some 35) (Some 150) None,
      Player ''Player5'' ''K'' ''T5'' 5 (Some 30) (Some 100) None]"

definition regret_test_pool :: "player list" where
  "regret_test_pool =
     [Player ''Elite QB'' ''QB'' ''T1'' 1 (Some 50) (Some 350) None,
      Player ''Good QB'' ''QB'' ''T2'' 10 (Some 25) (Some 280) None,
      Player ''Elite RB'' ''RB'' ''T3'' 2 (Some 48) (Some 300) None,
      Player ''Good RB'' ''RB'' ''T4'' 8 (Some 30) (Some 220) None,
      Player ''Avg RB'' ''RB'' ''T5'' 15 (Some 20) (Some 180) None,
      Player ''Elite WR'' ''WR'' ''T6'' 3 (Some 45) (Some 280) None,
      Player ''Good WR'' ''WR'' ''T7'' 7 (Some 32) (Some 200) None]"

text \<open>
  The complete roster that \<open>test_roster_completion\<close> builds: eight players added to the
  slots QB, RB, RB, WR, WR, TE, FLEX, K.
\<close>

definition full_team :: team_rec where
  "full_team =
     foldl (\<lambda>tm (i, pos, roster_pos).
              add_player tm
                (Player (''Player'' @ [char_of (48 + i)]) pos ''TEST'' (int i + 1)
                   (Some 20) (Some 100) None)
                (Some roster_pos))
       (Team 1)
       [(0::nat, ''QB'', ''QB''), (1, ''RB'', ''RB''), (2, ''RB'', ''RB''), (3, ''WR'', ''WR''),
        (4, ''WR'', ''WR''), (5, ''TE'', ''TE''), (6, ''RB'', ''FLEX''), (7, ''K'', ''K'')]"

text \<open>A pool with ADP ranks 1 to 5 whose best-ranked player is a team defense.\<close>

definition defense_first_pool :: "player list" where
  "defense_first_pool =
     [Player ''Defense1'' ''DST'' ''T1'' 1 (Some 50) (Some 300) None,
      Player ''Player2'' ''QB'' ''T2'' 2 (Some 45) (Some 250) None,
      Player ''Player3'' ''RB'' ''T3'' 3 (Some 40) (Some 200) None,
      Player ''Player4'' ''WR'' ''T4'' 4 (Some 35) (Some 150) None,
      Player ''Player5'' ''TE'' ''T5'' 5 (Some 30) (Some 100) None]"

text \<open>Two players of different positions and equal auction value: their scores tie.\<close>

definition tie_pool :: "player list" where
  "tie_pool =
     [Player ''First'' ''QB'' ''T1'' 2 (Some 10) (Some 100) None,
      Player ''Second'' ''RB'' ''T2'' 1 (Some 10) (Some 200) None]"

text \<open>A pool in which every auction value is negative.\<close>

definition negative_value_pool :: "player list" where
  "negative_value_pool =
     [Player ''A'' ''QB'' ''T1'' 1 (Some (- 2)) (Some 100) None,
      Player ''B'' ''QB'' ''T2'' 2 (Some (- 1)) (Some 90) None]"

section \<open>Invariants of the draft loop\<close>

text \<open>
  A player fits a slot when its position is the slot's name, or the slot is FLEX and the
  player is RB, WR or TE. A team is in order when its roster entries are among its draft
  picks, every pick whose position is a roster key is on the roster, and every roster
  entry fits its slot.
\<close>

definition slot_fits :: "slot \<Rightarrow> player \<Rightarrow> bool" where
  "slot_fits s q \<longleftrightarrow>
     position q = slot_name s \<or> (s = FLEX \<and> position q \<in> set skill_positions)"

definition team_ok :: "team_rec \<Rightarrow> bool" where
  "team_ok tm \<longleftrightarrow>
     mset (roster_players tm) \<subseteq># mset (draft_picks tm)
     \<and> (\<forall>q \<in> set (draft_picks tm). slot_of (position q) \<noteq> None \<longrightarrow> q \<in> set (roster_players tm))
     \<and> (\<forall>s. \<forall>q \<in> set (roster tm s). slot_fits s q)"

definition all_picks :: "team_rec list \<Rightarrow> player list" where
  "all_picks ts = concat (map draft_picks ts)"

definition all_roster_players :: "team_rec list \<Rightarrow> player list" where
  "all_roster_players ts = concat (map roster_players ts)"

text \<open>The state after a successful pick and after a pick that gave no player.\<close>

definition after_pick :: "'s algorithm_class \<Rightarrow> 's draft_state \<Rightarrow> int \<Rightarrow> player \<Rightarrow> 's \<Rightarrow> 's draft_state" where
  "after_pick cls st tid p a =
     \<lparr>teams = (teams st)[nat (tid - 1) :=
         add_player (teams st ! nat (tid - 1)) p
           (Some (determine_roster_position p (teams st ! nat (tid - 1))))],
      team_algorithms =
        update_all_algorithms cls ((team_algorithms st)[nat (tid - 1) := a]) (name p),
      globally_drafted = insert (name p) (globally_drafted st)\<rparr>"

definition after_no_pick :: "'s draft_state \<Rightarrow> int \<Rightarrow> 's \<Rightarrow> 's draft_state" where
  "after_no_pick st tid a = st\<lparr>team_algorithms := (team_algorithms st)[nat (tid - 1) := a]\<rparr>"

text \<open>What \<open>_execute_draft_pick\<close> returns for pick number \<open>i\<close> of the order.\<close>

definition pick_of :: "'s algorithm_class \<Rightarrow> int list \<Rightarrow> nat \<Rightarrow> 's draft_state \<Rightarrow> player option \<times> 's" where
  "pick_of cls draft_order i st =
     execute_draft_pick cls (team_algorithms st ! nat (draft_order ! i - 1))
       (teams st ! nat (draft_order ! i - 1))
       (calculate_picks_until_next i (draft_order ! i) draft_order) (globally_drafted st)"

text \<open>The slot \<open>add_player\<close> appends to, \<open>None\<close> when it appends to no slot.\<close>

definition target_slot :: "player \<Rightarrow> string option \<Rightarrow> slot option" where
  "target_slot p position_arg =
     (let pos = (case position_arg of None \<Rightarrow> position p | Some s \<Rightarrow> s) in
      if pos = ''FLEX'' \<and> position p \<in> set skill_positions then Some FLEX
      else case slot_of pos of
        Some s \<Rightarrow> Some s
      | None \<Rightarrow>
          (case slot_of (position p) of
             Some s \<Rightarrow> Some s
           | None \<Rightarrow> if position p \<in> set skill_positions then Some FLEX else None))"

text \<open>No name is drafted twice, and every drafted name is in the global set.\<close>

definition unique_inv :: "'s draft_state \<Rightarrow> bool" where
  "unique_inv st \<longleftrightarrow>
     length (teams st) = 10
     \<and> distinct (map name (all_picks (teams st)))
     \<and> name ` set (all_picks (teams st)) \<subseteq> globally_drafted st
     \<and> (\<forall>tm \<in> set (teams st). team_ok tm)"

text \<open>
  The state the engine is in after team 1 has taken \<open>Player1\<close> of \<open>greedy_test_pool\<close>
  from a \<open>first_only\<close> instance: the next instance will offer the same player.
\<close>

definition conflict_state :: "first_only draft_state" where
  "conflict_state =
     \<lparr>teams = (map Team [1..num_teams])[0 :=
         add_player (Team 1) (hd greedy_test_pool) (Some ''QB'')],
      team_algorithms =
        map (\<lambda>tid. \<lparr>pool = greedy_test_pool, calls = (if tid = 1 then 1 else 0)\<rparr>) [1..num_teams],
      globally_drafted = {''Player1''}\<rparr>"

text \<open>
  What the engine relies on in a strategy class, in terms of the pool an instance holds
  (\<open>pool_of\<close>) and its drafted set (\<open>drafted_of\<close>): a new instance holds the copies of
  the players and an empty drafted set; \<open>add_drafted\<close> adds the names; the hook changes
  nothing; \<open>draft_player\<close> returns no pick only for a team without needs or with every
  player of the pool drafted, leaving the instance as it was, and otherwise returns an
  undrafted player of the pool, whose name it adds to the drafted set.
\<close>

definition well_behaved ::
  "'s algorithm_class \<Rightarrow> ('s \<Rightarrow> player list) \<Rightarrow> ('s \<Rightarrow> string set) \<Rightarrow> bool" where
  "well_behaved cls pool_of drafted_of \<longleftrightarrow>
     (\<forall>ps. set (pool_of (construct cls ps)) = (\<lambda>p. p\<lparr>bye_week := 0\<rparr>) ` set ps
           \<and> drafted_of (construct cls ps) = {})
     \<and> (\<forall>names a. pool_of (add_drafted cls names a) = pool_of a
           \<and> drafted_of (add_drafted cls names a) = drafted_of a \<union> names)
     \<and> (\<forall>a. update_available_players cls a = a)
     \<and> (\<forall>a tm k.
           case draft_player cls a tm k of
             (None, a') \<Rightarrow>
               a' = a \<and> (get_needs tm = [] \<or> (\<forall>q \<in> set (pool_of a). name q \<in> drafted_of a))
           | (Some p, a') \<Rightarrow>
               pool_of a' = pool_of a \<and> drafted_of a' = insert (name p) (drafted_of a)
               \<and> name p \<notin> drafted_of a \<and> p \<in> set (pool_of a))"

text \<open>
  The teams and instances of a draft over \<open>players\<close> with a well-behaved class: ten
  teams in order, ten instances that hold the copies of the pool, and only copies of
  pool players among the picks.
\<close>

definition pool_inv :: "('s \<Rightarrow> player list) \<Rightarrow> player list \<Rightarrow> 's draft_state \<Rightarrow> bool" where
  "pool_inv pool_of players st \<longleftrightarrow>
     length (teams st) = 10 \<and> length (team_algorithms st) = 10
     \<and> (\<forall>a \<in> set (team_algorithms st). set (pool_of a) = (\<lambda>p. p\<lparr>bye_week := 0\<rparr>) ` set players)
     \<and> (\<forall>tm \<in> set (teams st).
           team_ok tm \<and> set (draft_picks tm) \<subseteq> (\<lambda>p. p\<lparr>bye_week := 0\<rparr>) ` set players)"

text \<open>
  The state after \<open>i\<close> picks when every pick so far has given a player: the global set
  holds the \<open>i\<close> names of the picks, no instance has drafted a name outside it, and
  every team has as many picks as it has had turns.
\<close>

definition full_inv ::
  "('s \<Rightarrow> player list) \<Rightarrow> ('s \<Rightarrow> string set) \<Rightarrow> player list \<Rightarrow> int list \<Rightarrow> nat \<Rightarrow> 's draft_state
     \<Rightarrow> bool" where
  "full_inv pool_of drafted_of players ord i st \<longleftrightarrow>
     pool_inv pool_of players st
     \<and> (\<forall>a \<in> set (team_algorithms st). drafted_of a \<subseteq> globally_drafted st)
     \<and> finite (globally_drafted st)
     \<and> card (globally_drafted st) = i
     \<and> globally_drafted st = name ` set (all_picks (teams st))
     \<and> (\<forall>j < 10. length (draft_picks (teams st ! j)) = count_list (take i ord) (int j + 1))"

text \<open>
  The result of a draft in which every player of the pool was drafted: ten teams, the
  tracked team being the fifth, eight picks each, and the strategy's copy of every pool
  player among some team's picks, in a roster slot of that team when the player's
  position is a roster key.
\<close>

definition drafted_all :: "player list \<Rightarrow> (team_rec \<times> team_rec list) option \<Rightarrow> bool" where
  "drafted_all players res \<longleftrightarrow>
     (case res of
        None \<Rightarrow> False
      | Some (our_team, ts) \<Rightarrow>
          length ts = 10 \<and> our_team = ts ! 4
          \<and> (\<forall>tm \<in> set ts. length (draft_picks tm) = 8)
          \<and> (\<forall>p \<in> set players. \<exists>tm \<in> set ts.
                p\<lparr>bye_week := 0\<rparr> \<in> set (draft_picks tm)
                \<and> (slot_of (position p) \<noteq> None \<longrightarrow> p\<lparr>bye_week := 0\<rparr> \<in> set (roster_players tm))))"

text \<open>Eighty players without a kicker: quarterbacks, running backs, receivers, tight ends.\<close>

definition no_kicker_pool :: "player list" where
  "no_kicker_pool =
     map (\<lambda>i. Player (''P'' @ [char_of (48 + i div 10), char_of (48 + i mod 10)])
                 ([''QB'', ''RB'', ''WR'', ''TE''] ! (i mod 4)) ''T'' (int i + 1)
                 (Some (80 - int i)) (Some (300 - real i)) (Some (int (i mod 14) + 1)))
       [0..<80]"

section \<open>Snake order: properties\<close>

lemma snake_rounds_concat:
  "snake_rounds n rs acc =
     acc @ concat (map (\<lambda>r. if even r then [1..n] else rev [1..n]) rs)"
  by (induction rs arbitrary: acc) (simp_all add: even_iff_mod_2_eq_zero)

lemma generate_snake_concat:
  "generate_snake_draft_order n r =
     concat (map (\<lambda>k. if even k then [1..n] else rev [1..n]) [0..<nat r])"
  by (simp add: generate_snake_draft_order_def snake_rounds_concat)

lemma length_concat_equal_length:
  "\<forall>xs \<in> set xss. length xs = m \<Longrightarrow> length (concat xss) = length xss * m"
  by (induction xss) simp_all

lemma take_drop_concat_equal_length:
  assumes "\<forall>xs \<in> set xss. length xs = m" and "k < length xss"
  shows "take m (drop (k * m) (concat xss)) = xss ! k"
  using assms
proof (induction xss arbitrary: k)
  case Nil
  then show ?case by simp
next
  case (Cons xs xss)
  show ?case
  proof (cases k)
    case 0
    with Cons.prems show ?thesis by simp
  next
    case (Suc j)
    with Cons.prems have "take m (drop (j * m) (concat xss)) = xss ! j"
      by (intro Cons.IH) auto
    with Suc Cons.prems show ?thesis by simp
  qed
qed

text \<open>
  C8. \<open>generate_snake_draft_order(num_teams, num_rounds)\<close> has
  \<open>num_rounds * num_teams\<close> entries, and its 0-indexed round \<open>k\<close> (the \<open>num_teams\<close>
  entries from position \<open>k * num_teams\<close> on) is \<open>1..num_teams\<close> ascending when \<open>k\<close> is
  even and \<open>num_teams..1\<close> descending when \<open>k\<close> is odd; for 4 teams and 2 rounds the
  order is \<open>[1,2,3,4,4,3,2,1]\<close>.
\<close>

theorem snake_order_rounds:
  "length (generate_snake_draft_order (int n) (int r)) = r * n
   \<and> (\<forall>k < r.
        take n (drop (k * n) (generate_snake_draft_order (int n) (int r))) =
          (if even k then [1..int n] else rev [1..int n]))
   \<and> generate_snake_draft_order 4 2 = [1, 2, 3, 4, 4, 3, 2, 1]"
proof (intro conjI allI impI)
  let ?xss = "map (\<lambda>k::nat. if even k then [1..int n] else rev [1..int n]) [0..<r]"
  have len: "\<forall>xs \<in> set ?xss. length xs = n" by auto
  show "length (generate_snake_draft_order (int n) (int r)) = r * n"
    using length_concat_equal_length [OF len] by (simp add: generate_snake_concat)
  show "take n (drop (k * n) (generate_snake_draft_order (int n) (int r))) =
          (if even k then [1..int n] else rev [1..int n])" if "k < r" for k
    using take_drop_concat_equal_length [OF len, of k] that
    by (simp add: generate_snake_concat)
  show "generate_snake_draft_order 4 2 = [1, 2, 3, 4, 4, 3, 2, 1]"
    by (simp add: generate_snake_draft_order_def upto.simps numeral_2_eq_2)
qed

theorem snake_order_rounds_witness:
  "(1::nat) < 2
   \<and> take 4 (drop (1 * 4) (generate_snake_draft_order (int 4) (int 2))) = [4, 3, 2, 1]"
  using snake_order_rounds [of 4 2] by (simp add: upto.simps)

section \<open>Strategies: what a call of draft\_player does\<close>

lemma greedy_scan_Some:
  "greedy_scan needs d ps = Some p \<Longrightarrow> p \<in> set ps \<and> name p \<notin> d"
  by (induction ps) (auto split: if_splits)

lemma greedy_fallback_Some:
  "greedy_fallback d ps = Some p \<Longrightarrow> p \<in> set ps \<and> name p \<notin> d"
  by (induction ps) (auto split: if_splits)

lemma greedy_fallback_None:
  "greedy_fallback d ps = None \<longleftrightarrow> (\<forall>p \<in> set ps. name p \<in> d)"
  by (induction ps) auto

lemma greedy_scan_None_fallback:
  "greedy_fallback d ps = None \<Longrightarrow> greedy_scan needs d ps = None"
  by (induction ps) (auto split: if_splits)

lemma greedy_draft_player_cases:
  "(case greedy_draft_player g tm of
      (None, g') \<Rightarrow> g' = g \<and> (get_needs tm = [] \<or> (\<forall>q \<in> set (available_players g). name q \<in> drafted_players g))
    | (Some p, g') \<Rightarrow>
        g' = g\<lparr>drafted_players := insert (name p) (drafted_players g)\<rparr>
        \<and> name p \<notin> drafted_players g \<and> p \<in> set (available_players g) \<and> get_needs tm \<noteq> [])"
  by (auto simp: greedy_draft_player_def Let_def greedy_fallback_None
      dest: greedy_scan_Some greedy_fallback_Some split: option.splits)

lemma sort_key_desc_set [simp]: "set (sort_key_desc f xs) = set xs"
  by (simp add: sort_key_desc_def)

lemma sort_key_desc_Nil [simp]: "sort_key_desc f xs = [] \<longleftrightarrow> xs = []"
  by (metis sort_key_desc_set set_empty)

lemma regret_candidates_subset:
  "snd ` set (regret_candidates r tm k) \<subseteq> set (get_available_players r)"
  by (auto simp: regret_candidates_def Let_def)

lemma regret_candidates_Nil:
  "regret_candidates r tm k = [] \<longleftrightarrow> get_available_players r = []"
  by (auto simp: regret_candidates_def Let_def)

lemma regret_draft_player_cases:
  "(case regret_draft_player r tm k of
      (None, r') \<Rightarrow> r' = r \<and> (get_needs tm = [] \<or> (\<forall>q \<in> set (all_players r). name q \<in> drafted_players r))
    | (Some p, r') \<Rightarrow>
        r' = r\<lparr>drafted_players := insert (name p) (drafted_players r)\<rparr>
        \<and> name p \<notin> drafted_players r \<and> p \<in> set (all_players r) \<and> get_needs tm \<noteq> [])"
proof (cases "get_needs tm = [] \<or> get_available_players r = []")
  case True
  then show ?thesis
    by (auto simp: regret_draft_player_def get_available_players_def filter_empty_conv)
next
  case False
  then have ne: "regret_candidates r tm k \<noteq> []" by (simp add: regret_candidates_Nil)
  then obtain best rest where s: "sort_key_desc fst (regret_candidates r tm k) = best # rest"
    by (cases "sort_key_desc fst (regret_candidates r tm k)") auto
  then have "best \<in> set (regret_candidates r tm k)"
    by (metis list.set_intros(1) sort_key_desc_set)
  then have "snd best \<in> set (get_available_players r)"
    using regret_candidates_subset by blast
  with False s show ?thesis
    by (auto simp: regret_draft_player_def get_available_players_def)
qed


section \<open>Greedy strategy: the selection rule\<close>

lemma greedy_scan_find:
  "greedy_scan needs d ps =
     find (\<lambda>p. name p \<notin> d \<and>
                (position p \<in> set needs \<or>
                 (position p \<in> {''RB'', ''WR'', ''TE''} \<and> ''FLEX'' \<in> set needs))) ps"
  by (induction ps) (auto simp: skill_positions_def)

lemma greedy_fallback_find: "greedy_fallback d ps = find (\<lambda>p. name p \<notin> d) ps"
  by (induction ps) auto

lemma greedy_draft_player_spec:
  "get_needs tm \<noteq> [] \<Longrightarrow>
   fst (greedy_draft_player g tm) =
     spec_greedy_pick (get_needs tm) (drafted_players g) (available_players g)"
  by (simp add: greedy_draft_player_def spec_greedy_pick_def Let_def
      greedy_scan_find greedy_fallback_find split: option.splits)

lemma map_sort_key: "map f (sort_key f xs) = sort (map f xs)"
  by (rule properties_for_sort [symmetric]) simp_all

lemma Player_sel [simp]:
  "name (Player n pos t adp av ap bw) = n"
  "position (Player n pos t adp av ap bw) = pos"
  "team (Player n pos t adp av ap bw) = t"
  "adp_rank (Player n pos t adp av ap bw) = adp"
  "auction_value (Player n pos t adp (Some v) ap bw) = v"
  "actual_points (Player n pos t adp av (Some a) bw) = a"
  "bye_week (Player n pos t adp av ap None) = 0"
  "bye_week (Player n pos t adp av ap (Some b)) = b"
  by (simp_all add: Player_def)

lemma Player_copy:
  "Player (name p) (position p) (team p) (adp_rank p)
     (Some (auction_value p)) (Some (actual_points p)) None = p\<lparr>bye_week := 0\<rparr>"
  by (cases p) (simp add: Player_def)

lemma greedy_available:
  "available_players (GreedyDraftAlgorithm players) =
     sort_key adp_rank (map (\<lambda>p. p\<lparr>bye_week := 0\<rparr>) players)"
  by (simp add: GreedyDraftAlgorithm_def Player_copy)

lemma greedy_available_ranks:
  "map adp_rank (available_players (GreedyDraftAlgorithm players)) = sort (map adp_rank players)"
  by (simp add: greedy_available map_sort_key comp_def)

lemma get_needs_Team:
  "get_needs (Team i) = [''QB'', ''RB'', ''WR'', ''TE'', ''FLEX'', ''K'']"
  by (simp add: get_needs_def Team_def roster_spots_def)

lemma slot_of_Some_iff:
  "slot_of s \<noteq> None \<longleftrightarrow> s \<in> set [''QB'', ''RB'', ''WR'', ''TE'', ''FLEX'', ''K'']"
  by (simp add: slot_of_def)

lemma greedy_first_pick:
  assumes ranks: "sort (map adp_rank players) = [1, 2, 3, 4, 5]"
    and pos: "\<forall>p \<in> set players. adp_rank p = 1 \<longrightarrow> slot_of (position p) \<noteq> None"
  shows "\<exists>p. fst (greedy_draft_player (GreedyDraftAlgorithm players) (Team i)) = Some p
              \<and> adp_rank p = 1"
proof -
  let ?av = "available_players (GreedyDraftAlgorithm players)"
  have "map adp_rank ?av = [1, 2, 3, 4, 5]"
    using ranks by (simp add: greedy_available_ranks)
  then obtain a rest where av: "?av = a # rest" and a1: "adp_rank a = 1"
    by (cases ?av) auto
  have "a \<in> set ?av" by (simp add: av)
  then obtain q where q: "q \<in> set players" "a = q\<lparr>bye_week := 0\<rparr>"
    by (auto simp: greedy_available)
  with a1 pos have "slot_of (position a) \<noteq> None" by auto
  then have "position a \<in> set (get_needs (Team i))"
    by (simp only: slot_of_Some_iff get_needs_Team)
  then have "greedy_scan (get_needs (Team i)) {} ?av = Some a"
    by (simp add: av)
  moreover have "drafted_players (GreedyDraftAlgorithm players) = {}"
    by (simp add: GreedyDraftAlgorithm_def)
  ultimately have "fst (greedy_draft_player (GreedyDraftAlgorithm players) (Team i)) = Some a"
    by (simp add: greedy_draft_player_def Let_def get_needs_Team)
  with a1 show ?thesis by blast
qed


section \<open>Stable descending sort\<close>

lemma find_hd_filter: "filter P xs \<noteq> [] \<Longrightarrow> find P xs = Some (hd (filter P xs))"
  by (induction xs) auto

lemma last_filter_sat: "xs \<noteq> [] \<Longrightarrow> P (last xs) \<Longrightarrow> last (filter P xs) = last xs"
  by (induction xs) (auto simp: filter_empty_conv)

lemma sorted_last_max:
  assumes "sorted (map f ss)" and "x \<in> set ss"
  shows "f x \<le> f (last ss)"
proof -
  from assms(2) obtain i where i: "i < length ss" "ss ! i = x"
    by (auto simp: in_set_conv_nth)
  then have ne: "ss \<noteq> []" by auto
  have "map f ss ! i \<le> map f ss ! (length ss - 1)"
    using assms(1) i(1) by (intro sorted_nth_mono) auto
  with i ne show ?thesis by (simp add: last_conv_nth)
qed

lemma sort_key_desc_hd:
  fixes f :: "'a \<Rightarrow> 'k::linorder"
  assumes "xs \<noteq> []" and y_def: "y = hd (sort_key_desc f xs)"
  shows "(\<forall>x \<in> set xs. f x \<le> f y) \<and> y = hd (filter (\<lambda>x. f x = f y) xs) \<and> y \<in> set xs"
proof -
  let ?ss = "sort_key f (rev xs)"
  have ne: "?ss \<noteq> []" using assms(1) by (metis rev_is_Nil_conv set_empty set_sort)
  have y: "y = last ?ss"
    using ne by (simp add: y_def sort_key_desc_def hd_rev)
  have mx: "f x \<le> f y" if "x \<in> set xs" for x
    unfolding y by (rule sorted_last_max) (use that in simp_all)
  have "last (filter (\<lambda>x. f x = f y) ?ss) = last ?ss"
    by (rule last_filter_sat) (simp_all add: y ne)
  also have "filter (\<lambda>x. f x = f y) ?ss = filter (\<lambda>x. f x = f y) (rev xs)"
    by (rule sort_key_stable)
  finally have "y = last (rev (filter (\<lambda>x. f x = f y) xs))"
    by (simp add: y rev_filter)
  moreover have yin: "y \<in> set xs"
    using ne y by (metis last_in_set set_rev set_sort)
  then have "filter (\<lambda>x. f x = f y) xs \<noteq> []"
    by (auto simp: filter_empty_conv)
  ultimately have "y = hd (filter (\<lambda>x. f x = f y) xs)"
    by (simp add: last_rev)
  with mx yin show ?thesis by blast
qed

lemma sort_key_desc_first_max:
  assumes "sort_key_desc f xs = y # ys"
  shows "find (\<lambda>x. \<forall>x' \<in> set xs. f x' \<le> f x) xs = Some y"
proof -
  have ne: "xs \<noteq> []" using assms by (auto simp: sort_key_desc_def)
  have y: "y = hd (sort_key_desc f xs)" using assms by simp
  note h = sort_key_desc_hd [OF ne y]
  have eq: "filter (\<lambda>x. \<forall>x' \<in> set xs. f x' \<le> f x) xs = filter (\<lambda>x. f x = f y) xs"
  proof (rule filter_cong [OF refl])
    fix x assume "x \<in> set xs"
    with h show "(\<forall>x' \<in> set xs. f x' \<le> f x) = (f x = f y)"
      by (metis order_antisym order_trans order_refl)
  qed
  have "filter (\<lambda>x. f x = f y) xs \<noteq> []"
    using h by (auto simp: filter_empty_conv)
  with eq h show ?thesis
    using find_hd_filter [of "\<lambda>x. \<forall>x' \<in> set xs. f x' \<le> f x" xs] by simp
qed

section \<open>Regret strategy: scarcity and score\<close>

lemma interpolate_le:
  fixes a b t :: real
  assumes "a \<le> b" "0 \<le> t" "t \<le> 1"
  shows "a + t * (b - a) \<le> b"
proof -
  have "t * (b - a) \<le> 1 * (b - a)"
    using assms by (intro mult_right_mono) auto
  then show ?thesis by simp
qed

lemma percentile75_le_some:
  assumes "vs \<noteq> []"
  shows "\<exists>v \<in> set vs. percentile75 vs \<le> real_of_int v"
proof -
  let ?s = "sort vs"
  let ?n = "length vs"
  let ?lo = "(3 * (?n - 1)) div 4"
  let ?fr = "(3 * (?n - 1)) mod 4"
  let ?hi = "min (?lo + 1) (?n - 1)"
  have n: "0 < ?n" using assms by simp
  have lo: "?lo \<le> ?n - 1" by simp
  have lohi: "?lo \<le> ?hi" using lo by simp
  have "?n - 1 < ?n" using n by simp
  then have "?hi < ?n" by (rule min.strict_coboundedI2)
  then have hi: "?hi < length ?s" by simp
  have "?s ! ?lo \<le> ?s ! ?hi"
    using lohi hi by (intro sorted_nth_mono) simp_all
  then have "real_of_int (?s ! ?lo) + (real ?fr / 4) * (real_of_int (?s ! ?hi) - real_of_int (?s ! ?lo))
      \<le> real_of_int (?s ! ?hi)"
    by (intro interpolate_le) simp_all
  then have "percentile75 vs \<le> real_of_int (?s ! ?hi)"
    using assms by (simp add: percentile75_def Let_def)
  moreover have "?s ! ?hi \<in> set vs"
    using hi by (metis nth_mem set_sort)
  ultimately show ?thesis by blast
qed

lemma quality_players_pos: "vs \<noteq> [] \<Longrightarrow> 1 \<le> quality_players vs"
proof -
  assume "vs \<noteq> []"
  then obtain v where "v \<in> set vs" "percentile75 vs \<le> real_of_int v"
    using percentile75_le_some by blast
  then have "filter (\<lambda>v. percentile75 vs \<le> real_of_int v) vs \<noteq> []"
    by (auto simp: filter_empty_conv)
  then show ?thesis
    by (simp add: quality_players_def Suc_le_eq)
qed

lemma clamp_recip:
  assumes "1 \<le> q"
  shows "min 1 (max (1 / 10) (1 / real (max 1 q))) = clamp (1 / real q) (1 / 10) 1"
proof -
  have "1 / real q \<le> 1" using assms by simp
  moreover have "max 1 q = q" using assms by simp
  ultimately show ?thesis by (simp add: clamp_def max_def min_def)
qed

lemma available_at_position_filter:
  "available_at_position r pos =
     filter (\<lambda>p. name p \<notin> drafted_players r \<and> position p = pos) (all_players r)"
  by (simp add: available_at_position_def conj_commute)

lemma scarcity_eq_spec: "calculate_positional_scarcity r pos = spec_scarcity r pos"
proof -
  let ?av = "available_at_position r pos"
  consider "?av = []" | "length ?av = 1" | "2 \<le> length ?av"
    by (cases ?av) (auto simp: Suc_le_eq numeral_2_eq_2)
  then show ?thesis
  proof cases
    case 1
    then show ?thesis
      by (simp add: calculate_positional_scarcity_def spec_scarcity_def
          available_at_position_filter [symmetric])
  next
    case 2
    then have "?av \<noteq> []" by auto
    with 2 show ?thesis
      by (simp add: calculate_positional_scarcity_def spec_scarcity_def Let_def
          available_at_position_filter [symmetric])
  next
    case 3
    then have "map auction_value ?av \<noteq> []" by auto
    then have q: "1 \<le> quality_players (map auction_value ?av)" by (rule quality_players_pos)
    from 3 have len: "?av \<noteq> []" "length ?av \<noteq> 1" "\<not> length ?av < 2" by auto
    have "calculate_positional_scarcity r pos =
        min 1 (max (1 / 10) (1 / real (max 1 (quality_players (map auction_value ?av)))))"
      using len by (simp add: calculate_positional_scarcity_def Let_def)
    moreover have "spec_scarcity r pos =
        clamp (1 / real (quality_players (map auction_value ?av))) (1 / 10) 1"
      using len by (simp add: spec_scarcity_def Let_def available_at_position_filter [symmetric])
    ultimately show ?thesis
      by (simp only: clamp_recip [OF q])
  qed
qed

lemma clamp_range: "lo \<le> hi \<Longrightarrow> lo \<le> clamp x lo hi \<and> clamp x lo hi \<le> hi"
  by (simp add: clamp_def)

lemma spec_scarcity_range:
  "spec_scarcity r pos = 0 \<or> (1 / 10 \<le> spec_scarcity r pos \<and> spec_scarcity r pos \<le> 1)"
  using clamp_range [of "1 / 10" 1] by (simp add: spec_scarcity_def Let_def)

lemma scarcity_bounds:
  "0 \<le> calculate_positional_scarcity r pos \<and> calculate_positional_scarcity r pos \<le> 1"
  using spec_scarcity_range [of r pos] by (auto simp: scarcity_eq_spec)

lemma dropoff_bounds:
  "0 \<le> calculate_value_dropoff r pos \<and> calculate_value_dropoff r pos \<le> 1"
  by (auto simp: calculate_value_dropoff_def Let_def split: list.splits)

lemma urgency_bounds:
  "1 / 19 \<le> calculate_pick_urgency k \<and> calculate_pick_urgency k \<le> 1"
  by (simp add: calculate_pick_urgency_def Let_def)

lemma max_default_ge: "v \<in> set vs \<Longrightarrow> v \<le> max_default vs d"
proof (cases vs)
  case Nil
  then show "v \<in> set vs \<Longrightarrow> ?thesis" by simp
next
  case (Cons w ws)
  have "fold max ws w = Max (set (w # ws))"
    by (rule Max.set_eq_fold [symmetric])
  then show "v \<in> set vs \<Longrightarrow> ?thesis"
    using Cons by (simp del: set_simps)
qed

lemma regret_init_fields:
  "all_players (RegretDraftAlgorithm players) = map (\<lambda>p. p\<lparr>bye_week := 0\<rparr>) players"
  "drafted_players (RegretDraftAlgorithm players) = {}"
  "max_auction (RegretDraftAlgorithm players) =
     max_default (map auction_value (all_players (RegretDraftAlgorithm players))) 1"
  by (simp_all add: RegretDraftAlgorithm_def Let_def Player_copy)

lemma all_slots: "set [QB, RB, WR, TE, FLEX, K] = UNIV"
proof -
  have "s \<in> set [QB, RB, WR, TE, FLEX, K]" for s
    by (cases s) simp_all
  then show ?thesis by blast
qed

lemma set_concat_map: "set (concat (map f xs)) = (\<Union>x \<in> set xs. set (f x))"
  by simp

lemma set_team_bye_weeks:
  "set (team_bye_weeks tm) = (\<Union>s. bye_week ` set (roster tm s))"
  unfolding team_bye_weeks_def set_concat_map all_slots by simp

lemma bye_clash_iff:
  fixes p :: player
  shows "bye_week p \<in> set (team_bye_weeks tm) \<longleftrightarrow>
    (\<exists>s. \<exists>q \<in> set (roster tm s). bye_week q = bye_week p)"
  unfolding set_team_bye_weeks
proof
  assume "bye_week p \<in> (\<Union>s. bye_week ` set (roster tm s))"
  then obtain s q where "q \<in> set (roster tm s)" "bye_week p = bye_week q" by auto
  then show "\<exists>s. \<exists>q \<in> set (roster tm s). bye_week q = bye_week p"
    by (intro exI [of _ s] bexI [of _ q]) simp_all
next
  assume "\<exists>s. \<exists>q \<in> set (roster tm s). bye_week q = bye_week p"
  then obtain s q where "q \<in> set (roster tm s)" "bye_week q = bye_week p" by blast
  then have "bye_week p \<in> bye_week ` set (roster tm s)" by (metis imageI)
  then show "bye_week p \<in> (\<Union>s. bye_week ` set (roster tm s))" by blast
qed

lemma regret_score_unfold:
  "calculate_regret_score r p tm k =
     max 0 (3 / 10 * (if 0 < max_auction r
                      then real_of_int (auction_value p) / real_of_int (max_auction r) else 0)
            + 4 / 10 * calculate_positional_scarcity r (position p)
                * calculate_value_dropoff r (position p)
            + 3 / 10 * calculate_pick_urgency k
            - (if (\<exists>s. \<exists>q \<in> set (roster tm s). bye_week q = bye_week p) then 5 / 100 else 0))"
  by (simp add: calculate_regret_score_def Let_def bye_clash_iff mult.commute mult.left_commute)

lemma regret_score_le_1:
  assumes "p \<in> set (all_players (RegretDraftAlgorithm players))"
  shows "calculate_regret_score ((RegretDraftAlgorithm players)\<lparr>drafted_players := D\<rparr>) p tm k \<le> 1"
proof -
  let ?r = "(RegretDraftAlgorithm players)\<lparr>drafted_players := D\<rparr>"
  let ?v = "if 0 < max_auction ?r
            then real_of_int (auction_value p) / real_of_int (max_auction ?r) else 0"
  let ?s = "calculate_positional_scarcity ?r (position p)"
  let ?d = "calculate_value_dropoff ?r (position p)"
  let ?u = "calculate_pick_urgency k"
  have "auction_value p \<le> max_auction ?r"
    using assms by (simp add: regret_init_fields(3) max_default_ge)
  then have v: "?v \<le> 1" by simp
  have "?s * ?d \<le> 1 * 1"
    using scarcity_bounds [of ?r "position p"] dropoff_bounds [of ?r "position p"]
    by (intro mult_mono) auto
  then have sd: "?s * ?d \<le> 1" by simp
  have u: "?u \<le> 1" using urgency_bounds by simp
  have "3 / 10 * ?v + 4 / 10 * (?s * ?d) + 3 / 10 * ?u \<le> 1"
    using v sd u by linarith
  then show ?thesis
    unfolding regret_score_unfold by (auto simp: mult.assoc)
qed

section \<open>Claims about the strategies\<close>

text \<open>
  C10. A call of \<open>draft_player\<close>, of either strategy, that returns no pick leaves the
  instance as it was, and it returns no pick exactly when the team has no need or every
  player of the instance's pool is in its drafted set; a call that returns a player adds
  that player's name, which was not in the set before, and nothing else.
\<close>

theorem draft_player_atomic:
  "(case greedy_draft_player g tm of
      (None, g') \<Rightarrow> g' = g
    | (Some p, g') \<Rightarrow>
        g' = g\<lparr>drafted_players := insert (name p) (drafted_players g)\<rparr>
        \<and> name p \<notin> drafted_players g)
   \<and> (fst (greedy_draft_player g tm) = None \<longleftrightarrow>
        get_needs tm = [] \<or> (\<forall>q \<in> set (available_players g). name q \<in> drafted_players g))
   \<and> (case regret_draft_player r tm k of
      (None, r') \<Rightarrow> r' = r
    | (Some p, r') \<Rightarrow>
        r' = r\<lparr>drafted_players := insert (name p) (drafted_players r)\<rparr>
        \<and> name p \<notin> drafted_players r)
   \<and> (fst (regret_draft_player r tm k) = None \<longleftrightarrow>
        get_needs tm = [] \<or> (\<forall>q \<in> set (all_players r). name q \<in> drafted_players r))"
  using greedy_draft_player_cases [of g tm] regret_draft_player_cases [of r tm k]
  by (auto split: prod.splits option.splits)

theorem draft_player_atomic_witness:
  "map_option name (fst (greedy_draft_player (GreedyDraftAlgorithm greedy_test_pool) (Team 1)))
     = Some ''Player1''
   \<and> drafted_players (snd (greedy_draft_player (GreedyDraftAlgorithm greedy_test_pool) (Team 1)))
     = {''Player1''}
   \<and> fst (greedy_draft_player (GreedyDraftAlgorithm greedy_test_pool) full_team) = None
   \<and> drafted_players (snd (greedy_draft_player (GreedyDraftAlgorithm greedy_test_pool) full_team))
     = {}
   \<and> map_option name (fst (regret_draft_player (RegretDraftAlgorithm regret_test_pool) (Team 1) 11))
     = Some ''Elite QB''
   \<and> drafted_players (snd (regret_draft_player (RegretDraftAlgorithm regret_test_pool) (Team 1) 11))
     = {''Elite QB''}"
proof -
  let ?g = "GreedyDraftAlgorithm greedy_test_pool"
  let ?r = "RegretDraftAlgorithm regret_test_pool"
  have g1: "map_option name (fst (greedy_draft_player ?g (Team 1))) = Some ''Player1''"
    by code_simp
  have g2: "fst (greedy_draft_player ?g full_team) = None"
    by code_simp
  have r1: "map_option name (fst (regret_draft_player ?r (Team 1) 11)) = Some ''Elite QB''"
    by code_simp
  have d: "drafted_players ?g = {}" "drafted_players ?r = {}"
    by (simp_all add: GreedyDraftAlgorithm_def regret_init_fields)
  show ?thesis
    using draft_player_atomic [of ?g "Team 1" ?r 11] draft_player_atomic [of ?g full_team ?r 11]
      g1 g2 r1 d
    by (auto split: prod.splits option.splits)
qed

text \<open>
  C7 (amended). For a team with at least one open need, greedy \<open>draft_player\<close> returns
  the first undrafted player, in the instance's list, whose position is a direct need or
  who is RB/WR/TE while FLEX is a need, and the first undrafted player of the list when
  there is no such player; the list a new instance holds is in ascending ADP order. For
  every pool whose ADP ranks are 1 to 5 and whose rank-1 player has one of the roster's
  slot names as position, the first pick for a fresh team has ADP rank 1.
\<close>

theorem greedy_draft_player_rule:
  "(get_needs tm \<noteq> [] \<longrightarrow>
      fst (greedy_draft_player g tm) =
        spec_greedy_pick (get_needs tm) (drafted_players g) (available_players g))
   \<and> sorted (map adp_rank (available_players (GreedyDraftAlgorithm players)))
   \<and> (sort (map adp_rank players) = [1, 2, 3, 4, 5]
        \<and> (\<forall>p \<in> set players. adp_rank p = 1 \<longrightarrow> slot_of (position p) \<noteq> None)
      \<longrightarrow> (\<exists>p. fst (greedy_draft_player (GreedyDraftAlgorithm players) (Team i)) = Some p
               \<and> adp_rank p = 1))"
proof (intro conjI impI)
  show "fst (greedy_draft_player g tm) =
      spec_greedy_pick (get_needs tm) (drafted_players g) (available_players g)"
    if "get_needs tm \<noteq> []"
    using that by (rule greedy_draft_player_spec)
  show "sorted (map adp_rank (available_players (GreedyDraftAlgorithm players)))"
    by (simp add: greedy_available_ranks)
  show "\<exists>p. fst (greedy_draft_player (GreedyDraftAlgorithm players) (Team i)) = Some p
          \<and> adp_rank p = 1"
    if "sort (map adp_rank players) = [1, 2, 3, 4, 5]
        \<and> (\<forall>p \<in> set players. adp_rank p = 1 \<longrightarrow> slot_of (position p) \<noteq> None)"
    using that greedy_first_pick by blast
qed

theorem greedy_draft_player_rule_witness:
  "get_needs (Team 1) \<noteq> []
   \<and> sort (map adp_rank greedy_test_pool) = [1, 2, 3, 4, 5]
   \<and> filter (\<lambda>p. adp_rank p = 1 \<and> slot_of (position p) = None) greedy_test_pool = []
   \<and> fst (greedy_draft_player (GreedyDraftAlgorithm greedy_test_pool) (Team 1)) =
       spec_greedy_pick (get_needs (Team 1)) {}
         (available_players (GreedyDraftAlgorithm greedy_test_pool))
   \<and> map_option adp_rank
         (fst (greedy_draft_player (GreedyDraftAlgorithm greedy_test_pool) (Team 1))) = Some 1"
proof -
  let ?g = "GreedyDraftAlgorithm greedy_test_pool"
  have h1: "get_needs (Team 1) \<noteq> []" by (simp add: get_needs_Team)
  have h2: "sort (map adp_rank greedy_test_pool) = [1, 2, 3, 4, 5]" by code_simp
  have h3: "filter (\<lambda>p. adp_rank p = 1 \<and> slot_of (position p) = None) greedy_test_pool = []"
    by code_simp
  then have h4: "\<forall>p \<in> set greedy_test_pool. adp_rank p = 1 \<longrightarrow> slot_of (position p) \<noteq> None"
    by (simp add: filter_empty_conv)
  have d: "drafted_players ?g = {}" by (simp add: GreedyDraftAlgorithm_def)
  from greedy_draft_player_rule [of "Team 1" ?g greedy_test_pool 1] h1 h2 h4
  have "fst (greedy_draft_player ?g (Team 1)) =
          spec_greedy_pick (get_needs (Team 1)) (drafted_players ?g) (available_players ?g)"
    and "\<exists>p. fst (greedy_draft_player ?g (Team 1)) = Some p \<and> adp_rank p = 1"
    by blast+
  with h1 h2 h3 d show ?thesis by auto
qed

text \<open>
  The claim as stated fails twice. With the pool \<open>defense_first_pool\<close> (ADP ranks 1 to
  5, the rank-1 player a team defense) the first pick for a fresh team has ADP rank 2.
  With a complete roster no player matches a need, and the call returns no pick instead
  of the lowest-ADP undrafted player.
\<close>

theorem greedy_draft_player_counterexample:
  "map adp_rank defense_first_pool = [1, 2, 3, 4, 5]
   \<and> get_needs (Team 1) = [''QB'', ''RB'', ''WR'', ''TE'', ''FLEX'', ''K'']
   \<and> map_option adp_rank
        (fst (greedy_draft_player (GreedyDraftAlgorithm defense_first_pool) (Team 1))) = Some 2
   \<and> get_needs full_team = []
   \<and> fst (greedy_draft_player (GreedyDraftAlgorithm greedy_test_pool) full_team) = None
   \<and> map_option name
        (spec_greedy_pick (get_needs full_team) {}
           (available_players (GreedyDraftAlgorithm greedy_test_pool))) = Some ''Player1''"
  by code_simp

text \<open>
  C9. When regret \<open>draft_player\<close> returns a player, that player with its score is the
  first entry of the candidate list whose score no other candidate exceeds: a candidate
  of maximal score and, among several, the earliest. The candidates are scored with
  \<open>calculate_regret_score\<close> and stand in the order of the instance's pool.
\<close>

theorem regret_pick_first_maximum:
  assumes "regret_draft_player r tm k = (Some p, r')"
  shows "find (\<lambda>c. \<forall>c' \<in> set (regret_candidates r tm k). fst c' \<le> fst c)
           (regret_candidates r tm k) = Some (calculate_regret_score r p tm k, p)
         \<and> (\<forall>c \<in> set (regret_candidates r tm k). fst c = calculate_regret_score r (snd c) tm k)
         \<and> (\<exists>P. map snd (regret_candidates r tm k) = filter P (all_players r))"
proof -
  let ?cs = "regret_candidates r tm k"
  from assms obtain best rest where s: "sort_key_desc fst ?cs = best # rest" and p: "p = snd best"
    by (auto simp: regret_draft_player_def split: if_splits list.splits)
  have sc: "fst c = calculate_regret_score r (snd c) tm k" if "c \<in> set ?cs" for c
    using that by (auto simp: regret_candidates_def Let_def split: if_splits)
  have "best \<in> set ?cs"
    using s by (metis list.set_intros(1) sort_key_desc_set)
  then have "best = (calculate_regret_score r p tm k, p)"
    using sc [of best] p by (simp add: prod_eq_iff)
  with sort_key_desc_first_max [OF s]
  have 1: "find (\<lambda>c. \<forall>c' \<in> set ?cs. fst c' \<le> fst c) ?cs = Some (calculate_regret_score r p tm k, p)"
    by simp
  have "map snd ?cs = filter (\<lambda>q. name q \<notin> drafted_players r \<and> fills_need (get_needs tm) q) (all_players r)
      \<or> map snd ?cs = filter (\<lambda>q. name q \<notin> drafted_players r) (all_players r)"
    by (simp add: regret_candidates_def Let_def get_available_players_def comp_def conj_commute)
  then have 3: "\<exists>P. map snd ?cs = filter P (all_players r)" by blast
  from 1 sc 3 show ?thesis by blast
qed

theorem regret_pick_first_maximum_witness:
  "map fst (regret_candidates (RegretDraftAlgorithm tie_pool) (Team 1) 11) = [90 / 190, 90 / 190]
   \<and> map (name \<circ> snd) (regret_candidates (RegretDraftAlgorithm tie_pool) (Team 1) 11)
       = [''First'', ''Second'']
   \<and> map_option name (fst (regret_draft_player (RegretDraftAlgorithm tie_pool) (Team 1) 11))
       = Some ''First''
   \<and> map_option (name \<circ> snd)
        (find (\<lambda>c. list_all (\<lambda>c'. fst c' \<le> fst c)
                     (regret_candidates (RegretDraftAlgorithm tie_pool) (Team 1) 11))
           (regret_candidates (RegretDraftAlgorithm tie_pool) (Team 1) 11)) = Some ''First''"
proof -
  let ?r = "RegretDraftAlgorithm tie_pool"
  let ?res = "regret_draft_player ?r (Team 1) 11"
  have e1: "map fst (regret_candidates ?r (Team 1) 11) = [90 / 190, 90 / 190]" by code_simp
  have e2: "map (name \<circ> snd) (regret_candidates ?r (Team 1) 11) = [''First'', ''Second'']"
    by code_simp
  have e3: "map_option name (fst ?res) = Some ''First''" by code_simp
  then obtain p where p: "fst ?res = Some p" "name p = ''First''" by auto
  then have "?res = (Some p, snd ?res)" by (simp add: prod_eq_iff)
  from regret_pick_first_maximum [OF this, THEN conjunct1] p
  have "map_option (name \<circ> snd)
        (find (\<lambda>c. \<forall>c' \<in> set (regret_candidates ?r (Team 1) 11). fst c' \<le> fst c)
           (regret_candidates ?r (Team 1) 11)) = Some ''First''"
    by simp
  with e1 e2 e3 show ?thesis by (simp add: list_all_iff)
qed

text \<open>
  C6. \<open>calculate_positional_scarcity(position)\<close> is 0 when no undrafted player remains
  at the position, 1 when exactly one remains, and otherwise \<open>1 / quality_players\<close>
  clamped to \<open>[0.1, 1.0]\<close>, where \<open>quality_players\<close> counts the undrafted players of
  the position whose auction value is at or above the 75th percentile of those values;
  the result is 0 or lies between 0.1 and 1.
\<close>

theorem positional_scarcity_rule:
  "calculate_positional_scarcity r pos = spec_scarcity r pos
   \<and> (length (available_at_position r pos) = 0 \<longrightarrow> calculate_positional_scarcity r pos = 0)
   \<and> (length (available_at_position r pos) = 1 \<longrightarrow> calculate_positional_scarcity r pos = 1)
   \<and> (2 \<le> length (available_at_position r pos) \<longrightarrow>
        calculate_positional_scarcity r pos =
          clamp (1 / real (length (filter
                   (\<lambda>v. percentile75 (map auction_value (available_at_position r pos))
                          \<le> real_of_int v)
                   (map auction_value (available_at_position r pos))))) (1 / 10) 1)
   \<and> (calculate_positional_scarcity r pos = 0
        \<or> (1 / 10 \<le> calculate_positional_scarcity r pos
            \<and> calculate_positional_scarcity r pos \<le> 1))"
proof -
  have "calculate_positional_scarcity r pos = spec_scarcity r pos"
    by (rule scarcity_eq_spec)
  moreover have "spec_scarcity r pos =
      (if length (available_at_position r pos) = 0 then 0
       else if length (available_at_position r pos) = 1 then 1
       else clamp (1 / real (quality_players (map auction_value (available_at_position r pos))))
              (1 / 10) 1)"
    by (simp add: spec_scarcity_def Let_def available_at_position_filter [symmetric])
  moreover note spec_scarcity_range [of r pos]
  ultimately show ?thesis
    by (auto simp: quality_players_def)
qed

theorem positional_scarcity_rule_witness:
  "length (available_at_position (RegretDraftAlgorithm regret_test_pool) ''TE'') = 0
   \<and> calculate_positional_scarcity (RegretDraftAlgorithm regret_test_pool) ''TE'' = 0
   \<and> length (available_at_position
        ((RegretDraftAlgorithm regret_test_pool)\<lparr>drafted_players := {''Elite QB''}\<rparr>) ''QB'') = 1
   \<and> calculate_positional_scarcity
        ((RegretDraftAlgorithm regret_test_pool)\<lparr>drafted_players := {''Elite QB''}\<rparr>) ''QB'' = 1
   \<and> length (available_at_position (RegretDraftAlgorithm regret_test_pool) ''RB'') = 3
   \<and> percentile75 (map auction_value
        (available_at_position (RegretDraftAlgorithm regret_test_pool) ''RB'')) = 39
   \<and> calculate_positional_scarcity (RegretDraftAlgorithm regret_test_pool) ''RB'' = 1"
proof -
  let ?r = "RegretDraftAlgorithm regret_test_pool"
  let ?r1 = "?r\<lparr>drafted_players := {''Elite QB''}\<rparr>"
  have a: "length (available_at_position ?r ''TE'') = 0" by code_simp
  have b: "length (available_at_position ?r1 ''QB'') = 1" by code_simp
  have c: "length (available_at_position ?r ''RB'') = 3" by code_simp
  have d: "percentile75 (map auction_value (available_at_position ?r ''RB'')) = 39" by code_simp
  have e: "clamp (1 / real (length (filter
                   (\<lambda>v. percentile75 (map auction_value (available_at_position ?r ''RB''))
                          \<le> real_of_int v)
                   (map auction_value (available_at_position ?r ''RB''))))) (1 / 10) 1 = 1"
    by code_simp
  show ?thesis
    using positional_scarcity_rule [of ?r "''TE''"] positional_scarcity_rule [of ?r1 "''QB''"]
      positional_scarcity_rule [of ?r "''RB''"] a b c d e
    by simp
qed

text \<open>
  C4 (amended). For every player, team and \<open>picks_until_next\<close>,
  \<open>calculate_regret_score\<close> is \<open>max(0, 0.3 * value + 0.4 * scarcity * dropoff +
  0.3 * urgency - bye_penalty)\<close>, where \<open>value\<close> is \<open>auction_value / max_auction\<close> when
  \<open>max_auction\<close> is positive and 0 otherwise, and \<open>bye_penalty\<close> is 0.05 exactly when the
  candidate's bye week equals the bye week of some player on the team's roster; with a
  positive \<open>max_auction\<close> this is the claimed formula. The score is never negative, and
  for a player of the instance's pool it is at most 1.
\<close>

theorem regret_score_formula:
  fixes p :: player
  shows
  "calculate_regret_score r p tm k =
     max 0 (3 / 10 * (if 0 < max_auction r
                      then real_of_int (auction_value p) / real_of_int (max_auction r) else 0)
            + 4 / 10 * calculate_positional_scarcity r (position p)
                * calculate_value_dropoff r (position p)
            + 3 / 10 * calculate_pick_urgency k
            - (if (\<exists>s. \<exists>q \<in> set (roster tm s). bye_week q = bye_week p) then 5 / 100 else 0))
   \<and> (0 < max_auction r \<longrightarrow>
        calculate_regret_score r p tm k =
          spec_regret_formula r p (\<exists>s. \<exists>q \<in> set (roster tm s). bye_week q = bye_week p) k)
   \<and> 0 \<le> calculate_regret_score r p tm k
   \<and> (p \<in> set (all_players (RegretDraftAlgorithm players)) \<longrightarrow>
        calculate_regret_score ((RegretDraftAlgorithm players)\<lparr>drafted_players := D\<rparr>) p tm k \<le> 1)"
proof (intro conjI impI)
  show "calculate_regret_score r p tm k =
     max 0 (3 / 10 * (if 0 < max_auction r
                      then real_of_int (auction_value p) / real_of_int (max_auction r) else 0)
            + 4 / 10 * calculate_positional_scarcity r (position p)
                * calculate_value_dropoff r (position p)
            + 3 / 10 * calculate_pick_urgency k
            - (if (\<exists>s. \<exists>q \<in> set (roster tm s). bye_week q = bye_week p) then 5 / 100 else 0))"
    by (rule regret_score_unfold)
  show "calculate_regret_score r p tm k =
          spec_regret_formula r p (\<exists>s. \<exists>q \<in> set (roster tm s). bye_week q = bye_week p) k"
    if "0 < max_auction r"
    using that unfolding regret_score_unfold spec_regret_formula_def by simp
  show "0 \<le> calculate_regret_score r p tm k"
    unfolding regret_score_unfold by simp
  show "calculate_regret_score ((RegretDraftAlgorithm players)\<lparr>drafted_players := D\<rparr>) p tm k \<le> 1"
    if "p \<in> set (all_players (RegretDraftAlgorithm players))"
    using that by (rule regret_score_le_1)
qed

theorem regret_score_formula_witness:
  "0 < max_auction (RegretDraftAlgorithm regret_test_pool)
   \<and> hd (all_players (RegretDraftAlgorithm regret_test_pool))
        \<in> set (all_players (RegretDraftAlgorithm regret_test_pool))
   \<and> calculate_regret_score (RegretDraftAlgorithm regret_test_pool)
        (hd (all_players (RegretDraftAlgorithm regret_test_pool))) (Team 1) 11 = 64 / 95
   \<and> spec_regret_formula (RegretDraftAlgorithm regret_test_pool)
        (hd (all_players (RegretDraftAlgorithm regret_test_pool))) False 11 = 64 / 95
   \<and> calculate_regret_score (RegretDraftAlgorithm regret_test_pool)
        (hd (all_players (RegretDraftAlgorithm regret_test_pool))) (Team 1) 11 \<le> 1"
proof -
  let ?r = "RegretDraftAlgorithm regret_test_pool"
  let ?p = "hd (all_players ?r)"
  have a: "0 < max_auction ?r" by code_simp
  have b: "?p \<in> set (all_players ?r)" by code_simp
  have c: "calculate_regret_score ?r ?p (Team 1) 11 = 64 / 95" by code_simp
  have d: "\<not> (\<exists>s. \<exists>q \<in> set (roster (Team 1) s). bye_week q = bye_week ?p)"
    by (simp add: Team_def)
  have e: "?r\<lparr>drafted_players := {}\<rparr> = ?r"
    by (simp add: RegretDraftAlgorithm_def Let_def)
  note f = regret_score_formula [of ?r ?p "Team 1" 11 regret_test_pool "{}"]
  from f [THEN conjunct2, THEN conjunct1] a d
  have g: "calculate_regret_score ?r ?p (Team 1) 11 = spec_regret_formula ?r ?p False 11"
    by simp
  from f [THEN conjunct2, THEN conjunct2, THEN conjunct2] b e
  have h: "calculate_regret_score ?r ?p (Team 1) 11 \<le> 1"
    by simp
  from a b c g h show ?thesis by simp
qed

text \<open>
  The claimed formula fails where \<open>max_auction\<close> is not positive: in
  \<open>negative_value_pool\<close> the maximum is -1, the source takes the value term as 0 and
  scores player A at 33/190, while the formula's \<open>0.3 * (-2 / -1)\<close> gives 147/190.
\<close>

theorem regret_score_formula_counterexample:
  "max_auction (RegretDraftAlgorithm negative_value_pool) = - 1
   \<and> map name (all_players (RegretDraftAlgorithm negative_value_pool)) = [''A'', ''B'']
   \<and> team_bye_weeks (Team 1) = []
   \<and> calculate_regret_score (RegretDraftAlgorithm negative_value_pool)
        (hd (all_players (RegretDraftAlgorithm negative_value_pool))) (Team 1) 11 = 33 / 190
   \<and> spec_regret_formula (RegretDraftAlgorithm negative_value_pool)
        (hd (all_players (RegretDraftAlgorithm negative_value_pool))) False 11 = 147 / 190"
  by code_simp

section \<open>Claims about the data model\<close>

lemma add_player_picks:
  "draft_picks (add_player tm p a) = draft_picks tm @ [p]"
  "total_points (add_player tm p a) = total_points tm + actual_points p"
  by (auto simp: add_player_def Let_def roster_append_def split: option.splits)

lemma add_player_sequence:
  "draft_picks (foldl (\<lambda>tm (p, a). add_player tm p a) tm0 adds) = draft_picks tm0 @ map fst adds
   \<and> total_points (foldl (\<lambda>tm (p, a). add_player tm p a) tm0 adds) =
       total_points tm0 + sum_list (map (actual_points \<circ> fst) adds)"
  by (induction adds arbitrary: tm0) (auto simp: add_player_picks)

text \<open>
  C3. Adding a player whose position is not a roster key (a team defense, \<open>'DST'\<close>), with
  no slot argument or with the slot the engine computes for it, stores the player in no
  roster slot and still adds its points: the sum over the roster slots is 0 while
  \<open>total_points\<close> is 100. The pick is counted in \<open>draft_picks\<close>.
\<close>

theorem add_player_unknown_position:
  "roster_players (add_player (Team 1) (Player ''Defense1'' ''DST'' ''T1'' 1 (Some 5) (Some 100) None)
      None) = []
   \<and> roster_points (add_player (Team 1)
        (Player ''Defense1'' ''DST'' ''T1'' 1 (Some 5) (Some 100) None) None) = 0
   \<and> total_points (add_player (Team 1)
        (Player ''Defense1'' ''DST'' ''T1'' 1 (Some 5) (Some 100) None) None) = 100
   \<and> length (draft_picks (add_player (Team 1)
        (Player ''Defense1'' ''DST'' ''T1'' 1 (Some 5) (Some 100) None) None)) = 1
   \<and> determine_roster_position (Player ''Defense1'' ''DST'' ''T1'' 1 (Some 5) (Some 100) None)
        (Team 1) = ''DST''
   \<and> roster_points (add_player (Team 1)
        (Player ''Defense1'' ''DST'' ''T1'' 1 (Some 5) (Some 100) None) (Some ''DST'')) = 0
   \<and> total_points (add_player (Team 1)
        (Player ''Defense1'' ''DST'' ''T1'' 1 (Some 5) (Some 100) None) (Some ''DST'')) = 100"
  by code_simp

text \<open>
  C5. The copy a strategy instance makes of a player does not agree with its source on
  \<open>bye_week\<close>: a player with bye week 10 is held with bye week 0 by a greedy and by a
  regret instance, the other six fields being those of the source.
\<close>

theorem strategy_copy_drops_bye_week:
  "map bye_week [Player ''Player1'' ''QB'' ''T1'' 1 (Some 50) (Some 300) (Some 10)] = [10]
   \<and> map bye_week (available_players (GreedyDraftAlgorithm
        [Player ''Player1'' ''QB'' ''T1'' 1 (Some 50) (Some 300) (Some 10)])) = [0]
   \<and> map bye_week (all_players (RegretDraftAlgorithm
        [Player ''Player1'' ''QB'' ''T1'' 1 (Some 50) (Some 300) (Some 10)])) = [0]
   \<and> available_players (GreedyDraftAlgorithm
        [Player ''Player1'' ''QB'' ''T1'' 1 (Some 50) (Some 300) (Some 10)])
       = [Player ''Player1'' ''QB'' ''T1'' 1 (Some 50) (Some 300) (Some 0)]
   \<and> all_players (RegretDraftAlgorithm
        [Player ''Player1'' ''QB'' ''T1'' 1 (Some 50) (Some 300) (Some 10)])
       = [Player ''Player1'' ''QB'' ''T1'' 1 (Some 50) (Some 300) (Some 0)]"
  by code_simp

section \<open>Draft engine: the pick loop\<close>

lemma draft_loop_step:
  assumes "i < length ord"
  shows "draft_loop cls n ord i (drop i ord) st =
    (case pick_of cls ord i st of
       (Some p, a) \<Rightarrow> draft_loop cls n ord (Suc i) (drop (Suc i) ord) (after_pick cls st (ord ! i) p a)
     | (None, a) \<Rightarrow>
         if 9 * n \<le> 10 * card (globally_drafted st) then after_no_pick st (ord ! i) a
         else draft_loop cls n ord (Suc i) (drop (Suc i) ord) (after_no_pick st (ord ! i) a))"
proof -
  have d: "drop i ord = ord ! i # drop (Suc i) ord"
    using assms by (simp add: Cons_nth_drop_Suc)
  show ?thesis
    unfolding d
    by (simp add: Let_def pick_of_def after_pick_def after_no_pick_def
        split: prod.splits option.splits)
qed

lemma draft_loop_rule:
  assumes init: "I i st" and le: "i \<le> length ord"
    and some: "\<And>i st p a. I i st \<Longrightarrow> i < length ord \<Longrightarrow> pick_of cls ord i st = (Some p, a)
                 \<Longrightarrow> I (Suc i) (after_pick cls st (ord ! i) p a)"
    and none: "\<And>i st a. I i st \<Longrightarrow> i < length ord \<Longrightarrow> pick_of cls ord i st = (None, a)
                 \<Longrightarrow> I (Suc i) (after_no_pick st (ord ! i) a) \<and> Q (after_no_pick st (ord ! i) a)"
    and final: "\<And>st. I (length ord) st \<Longrightarrow> Q st"
  shows "Q (draft_loop cls n ord i (drop i ord) st)"
  using init le
proof (induction "length ord - i" arbitrary: i st)
  case 0
  then have "i = length ord" by simp
  with 0 final show ?case by simp
next
  case (Suc m)
  then have lt: "i < length ord" by simp
  obtain r a where pk: "pick_of cls ord i st = (r, a)" by (cases "pick_of cls ord i st")
  show ?case
  proof (cases r)
    case None
    with pk none [OF Suc.prems(1) lt] have
      n1: "I (Suc i) (after_no_pick st (ord ! i) a)" and n2: "Q (after_no_pick st (ord ! i) a)"
      by simp_all
    have "Q (draft_loop cls n ord (Suc i) (drop (Suc i) ord) (after_no_pick st (ord ! i) a))"
      using Suc.hyps(2) lt n1 by (intro Suc.hyps(1)) simp_all
    with n2 pk None show ?thesis
      by (simp add: draft_loop_step [OF lt])
  next
    case (Some p)
    with pk some [OF Suc.prems(1) lt] have "I (Suc i) (after_pick cls st (ord ! i) p a)"
      by simp
    then have "Q (draft_loop cls n ord (Suc i) (drop (Suc i) ord) (after_pick cls st (ord ! i) p a))"
      using Suc.hyps(2) lt by (intro Suc.hyps(1)) simp_all
    with pk Some show ?thesis
      by (simp add: draft_loop_step [OF lt])
  qed
qed

lemma roster_players_unfold:
  "roster_players tm =
     roster tm QB @ roster tm RB @ roster tm WR @ roster tm TE @ roster tm FLEX @ roster tm K"
  by (simp add: roster_players_def roster_spots_def)

lemma set_roster_players: "set (roster_players tm) = (\<Union>s. set (roster tm s))"
proof -
  have "set (roster_players tm) = (\<Union>s \<in> set [QB, RB, WR, TE, FLEX, K]. set (roster tm s))"
    by (simp add: roster_players_unfold Un_assoc)
  then show ?thesis by (simp only: all_slots)
qed

lemma add_player_roster:
  "roster (add_player tm p a) =
     (case target_slot p a of None \<Rightarrow> roster tm | Some s \<Rightarrow> (roster tm)(s := roster tm s @ [p]))"
  by (simp add: add_player_def target_slot_def Let_def roster_append_def split: option.splits)

lemma roster_players_append:
  "mset (roster_players (tm\<lparr>roster := (roster tm)(s := roster tm s @ [p])\<rparr>)) =
     mset (roster_players tm) + {#p#}"
  by (cases s) (simp_all add: roster_players_unfold)

lemma roster_players_cong: "roster tm' = roster tm \<Longrightarrow> roster_players tm' = roster_players tm"
  by (simp add: roster_players_def)

lemma mset_roster_players_add_player:
  "mset (roster_players (add_player tm p a)) =
     (case target_slot p a of None \<Rightarrow> mset (roster_players tm)
      | Some s \<Rightarrow> mset (roster_players tm) + {#p#})"
proof (cases "target_slot p a")
  case None
  then have "roster (add_player tm p a) = roster tm" by (simp add: add_player_roster)
  then have "roster_players (add_player tm p a) = roster_players tm"
    by (rule roster_players_cong)
  then show ?thesis using None by simp
next
  case (Some s)
  then have "roster (add_player tm p a) = roster (tm\<lparr>roster := (roster tm)(s := roster tm s @ [p])\<rparr>)"
    by (simp add: add_player_roster)
  then have "roster_players (add_player tm p a) =
      roster_players (tm\<lparr>roster := (roster tm)(s := roster tm s @ [p])\<rparr>)"
    by (rule roster_players_cong)
  then show ?thesis using Some by (simp add: roster_players_append)
qed

lemma slot_of_slot_name [simp]: "slot_of (slot_name s) = Some s"
  by (cases s) (simp_all add: slot_of_def)

lemma slot_of_SomeD: "slot_of x = Some s \<Longrightarrow> x = slot_name s"
  by (auto simp: slot_of_def split: if_splits)

lemma get_needs_slot_names: "x \<in> set (get_needs tm) \<Longrightarrow> \<exists>s. x = slot_name s"
  by (auto simp: get_needs_def)

lemma skill_has_slot: "x \<in> set skill_positions \<Longrightarrow> slot_of x \<noteq> None"
  by (auto simp: skill_positions_def slot_of_def)

lemma target_slot_known: "slot_of (position p) \<noteq> None \<Longrightarrow> target_slot p a \<noteq> None"
  by (auto simp: target_slot_def Let_def split: option.splits)

lemma target_slot_determined:
  assumes "target_slot p (Some (determine_roster_position p tm)) = Some s"
  shows "slot_fits s p"
proof -
  let ?pos = "determine_roster_position p tm"
  have "(?pos = ''FLEX'' \<and> position p \<in> set skill_positions) \<or> ?pos = position p"
    by (simp add: determine_roster_position_def Let_def)
  then show ?thesis
  proof (elim disjE conjE)
    assume "?pos = ''FLEX''" "position p \<in> set skill_positions"
    with assms show ?thesis by (simp add: target_slot_def slot_fits_def)
  next
    assume own: "?pos = position p"
    have "position p \<noteq> ''FLEX'' \<or> position p \<notin> set skill_positions"
      by (auto simp: skill_positions_def)
    with own assms have "slot_of (position p) = Some s \<or> (s = FLEX \<and> position p \<in> set skill_positions)"
      by (auto simp: target_slot_def Let_def split: option.splits if_splits)
    then show ?thesis
      by (auto simp: slot_fits_def dest: slot_of_SomeD)
  qed
qed

lemma team_ok_Team: "team_ok (Team i)"
  by (simp add: team_ok_def Team_def roster_players_def)

lemma team_ok_add_player:
  assumes "team_ok tm"
  shows "team_ok (add_player tm p (Some (determine_roster_position p tm)))"
proof -
  let ?a = "Some (determine_roster_position p tm)"
  let ?tm = "add_player tm p ?a"
  have picks: "draft_picks ?tm = draft_picks tm @ [p]" by (simp add: add_player_picks)
  have ms: "mset (roster_players ?tm) =
      (case target_slot p ?a of None \<Rightarrow> mset (roster_players tm)
       | Some s \<Rightarrow> mset (roster_players tm) + {#p#})"
    by (rule mset_roster_players_add_player)
  from assms have sub: "mset (roster_players tm) \<subseteq># mset (draft_picks tm)"
    and known: "\<forall>q \<in> set (draft_picks tm). slot_of (position q) \<noteq> None \<longrightarrow> q \<in> set (roster_players tm)"
    and fits: "\<forall>s. \<forall>q \<in> set (roster tm s). slot_fits s q"
    by (simp_all add: team_ok_def)
  have 1: "mset (roster_players ?tm) \<subseteq># mset (draft_picks ?tm)"
  proof (cases "target_slot p ?a")
    case None
    have "mset (draft_picks tm) \<subseteq># mset (draft_picks tm) + {#p#}" by simp
    with sub have "mset (roster_players tm) \<subseteq># mset (draft_picks tm) + {#p#}"
      by (rule subset_mset.order_trans)
    with ms None show ?thesis by (simp add: picks)
  next
    case (Some s)
    with ms sub show ?thesis by (simp add: picks)
  qed
  have setrp: "set (roster_players ?tm) =
      (case target_slot p ?a of None \<Rightarrow> set (roster_players tm)
       | Some s \<Rightarrow> insert p (set (roster_players tm)))"
    using arg_cong [OF ms, of set_mset] by (simp split: option.splits)
  have 2: "\<forall>q \<in> set (draft_picks ?tm). slot_of (position q) \<noteq> None \<longrightarrow> q \<in> set (roster_players ?tm)"
  proof (intro ballI impI)
    fix q assume q: "q \<in> set (draft_picks ?tm)" "slot_of (position q) \<noteq> None"
    show "q \<in> set (roster_players ?tm)"
    proof (cases "q = p")
      case True
      with q(2) have "target_slot p ?a \<noteq> None" by (simp add: target_slot_known)
      with True show ?thesis by (auto simp: setrp)
    next
      case False
      with q have "q \<in> set (roster_players tm)" using known by (simp add: picks)
      then show ?thesis by (auto simp: setrp split: option.splits)
    qed
  qed
  have 3: "\<forall>s. \<forall>q \<in> set (roster ?tm s). slot_fits s q"
  proof (intro allI ballI)
    fix s q assume q: "q \<in> set (roster ?tm s)"
    show "slot_fits s q"
    proof (cases "target_slot p ?a")
      case None
      with q fits show ?thesis by (simp add: add_player_roster)
    next
      case (Some s')
      with q have "q \<in> set (roster tm s) \<or> (q = p \<and> s = s')"
        by (auto simp: add_player_roster split: if_splits)
      with fits target_slot_determined [OF Some] show ?thesis by auto
    qed
  qed
  from 1 2 3 show ?thesis by (simp add: team_ok_def)
qed

lemma needs_empty_roster_full:
  assumes "get_needs tm = []"
  shows "8 \<le> length (roster_players tm)"
proof -
  have f: "filter (\<lambda>(s, max_count). length (roster tm s) < max_count) roster_spots = []"
    using assms by (simp add: get_needs_def)
  have "1 \<le> length (roster tm QB) \<and> 2 \<le> length (roster tm RB) \<and> 2 \<le> length (roster tm WR)
    \<and> 1 \<le> length (roster tm TE) \<and> 1 \<le> length (roster tm FLEX) \<and> 1 \<le> length (roster tm K)"
    using f [unfolded filter_empty_conv] by (simp add: roster_spots_def not_less Suc_le_eq)
  then show ?thesis by (simp add: roster_players_unfold)
qed

lemma empty_slot_needed: "roster tm K = [] \<Longrightarrow> get_needs tm \<noteq> []"
  by (simp add: get_needs_def roster_spots_def)

section \<open>Draft engine: the order and one pick\<close>

lemma set_snake_order: "set (generate_snake_draft_order n r) \<subseteq> {1..n}"
  by (auto simp: generate_snake_concat split: if_splits)

lemma snake_order_index:
  assumes "i < length (generate_snake_draft_order num_teams r)"
  shows "nat (generate_snake_draft_order num_teams r ! i - 1) < 10"
proof -
  have "generate_snake_draft_order num_teams r ! i \<in> {1..num_teams}"
    using assms set_snake_order nth_mem by blast
  then have "1 \<le> generate_snake_draft_order num_teams r ! i"
    and "generate_snake_draft_order num_teams r ! i \<le> 10"
    by (simp_all add: num_teams_def)
  then show ?thesis by linarith
qed

lemma execute_draft_pick_Some:
  assumes "execute_draft_pick cls alg tm k G = (Some p, a)"
  shows "name p \<notin> G \<and> draft_player cls (add_drafted cls G alg) tm k = (Some p, a)"
  using assms
  by (auto simp: execute_draft_pick_def Let_def split: prod.splits option.splits if_splits)

lemma execute_draft_pick_None:
  assumes "execute_draft_pick cls alg tm k G = (None, a)"
  shows "draft_player cls (add_drafted cls G alg) tm k = (None, a)
         \<or> (\<exists>p. draft_player cls (add_drafted cls G alg) tm k = (Some p, a) \<and> name p \<in> G)"
  using assms
  by (auto simp: execute_draft_pick_def Let_def split: prod.splits option.splits if_splits)

lemma execute_draft_pick_conflict:
  assumes "draft_player cls (add_drafted cls G alg) tm k = (Some p, a)" and "name p \<in> G"
  shows "execute_draft_pick cls alg tm k G = (None, a)"
  using assms by (simp add: execute_draft_pick_def)

lemma after_pick_simps [simp]:
  "teams (after_pick cls st tid p a) =
     (teams st)[nat (tid - 1) :=
        add_player (teams st ! nat (tid - 1)) p
          (Some (determine_roster_position p (teams st ! nat (tid - 1))))]"
  "team_algorithms (after_pick cls st tid p a) =
     update_all_algorithms cls ((team_algorithms st)[nat (tid - 1) := a]) (name p)"
  "globally_drafted (after_pick cls st tid p a) = insert (name p) (globally_drafted st)"
  by (simp_all add: after_pick_def)

lemma after_no_pick_simps [simp]:
  "teams (after_no_pick st tid a) = teams st"
  "team_algorithms (after_no_pick st tid a) = (team_algorithms st)[nat (tid - 1) := a]"
  "globally_drafted (after_no_pick st tid a) = globally_drafted st"
  by (simp_all add: after_no_pick_def)

section \<open>Draft engine: no name is drafted twice\<close>

lemma all_picks_update:
  assumes "idx < length ts" and "draft_picks tm' = draft_picks (ts ! idx) @ [p]"
  shows "mset (all_picks (ts[idx := tm'])) = mset (all_picks ts) + {#p#}"
  using assms
proof (induction ts arbitrary: idx)
  case Nil
  then show ?case by simp
next
  case (Cons t ts)
  show ?case
  proof (cases idx)
    case 0
    with Cons.prems show ?thesis by (simp add: all_picks_def)
  next
    case (Suc j)
    with Cons.prems have "mset (all_picks (ts[j := tm'])) = mset (all_picks ts) + {#p#}"
      by (intro Cons.IH) simp_all
    with Suc show ?thesis by (simp add: all_picks_def)
  qed
qed

lemma distinct_map_mset_mono:
  assumes "mset ys \<subseteq># mset xs" and "distinct (map f xs)"
  shows "distinct (map f ys)"
proof -
  have sub: "mset (map f ys) \<subseteq># mset (map f xs)"
    using assms(1) by (simp add: image_mset_subseteq_mono)
  have "count (mset (map f ys)) a = (if a \<in> set (map f ys) then 1 else 0)" for a
  proof (cases "a \<in> set (map f ys)")
    case True
    then have "0 < count (mset (map f ys)) a" by (rule count_mset_gt_0)
    moreover have "count (mset (map f ys)) a \<le> count (mset (map f xs)) a"
      using sub by (rule mset_subset_eq_count)
    moreover have "count (mset (map f xs)) a \<le> 1"
      using assms(2) by (simp add: distinct_count_atmost_1)
    ultimately have "count (mset (map f ys)) a = 1" by linarith
    then show ?thesis by (simp only: True if_True)
  next
    case False
    then have "count (mset (map f ys)) a = 0" by (simp only: count_mset_0_iff) simp
    with False show ?thesis by presburger
  qed
  then show ?thesis by (simp only: distinct_count_atmost_1) blast
qed

lemma all_roster_players_sub:
  "\<forall>tm \<in> set ts. mset (roster_players tm) \<subseteq># mset (draft_picks tm) \<Longrightarrow>
   mset (all_roster_players ts) \<subseteq># mset (all_picks ts)"
  by (induction ts) (simp_all add: all_roster_players_def all_picks_def mset_subset_eq_mono_add)

lemma teams_after_pick_ok:
  assumes "\<forall>tm \<in> set (teams st). team_ok tm" and "nat (tid - 1) < length (teams st)"
  shows "\<forall>tm \<in> set (teams (after_pick cls st tid p a)). team_ok tm"
proof
  fix tm assume "tm \<in> set (teams (after_pick cls st tid p a))"
  then have "tm = add_player (teams st ! nat (tid - 1)) p
               (Some (determine_roster_position p (teams st ! nat (tid - 1))))
             \<or> tm \<in> set (teams st)"
    using set_update_subset_insert by fastforce
  moreover have "team_ok (teams st ! nat (tid - 1))"
    using assms by simp
  ultimately show "team_ok tm"
    using assms(1) team_ok_add_player by blast
qed

lemma all_picks_after_pick:
  assumes "nat (tid - 1) < length (teams st)"
  shows "mset (all_picks (teams (after_pick cls st tid p a))) = mset (all_picks (teams st)) + {#p#}"
  using assms by (simp add: all_picks_update add_player_picks)

lemma unique_inv_after_pick:
  assumes inv: "unique_inv st" and idx: "nat (tid - 1) < 10" and new: "name p \<notin> globally_drafted st"
  shows "unique_inv (after_pick cls st tid p a)"
proof -
  let ?st = "after_pick cls st tid p a"
  from inv have len: "length (teams st) = 10"
    and dist: "distinct (map name (all_picks (teams st)))"
    and sub: "name ` set (all_picks (teams st)) \<subseteq> globally_drafted st"
    and ok: "\<forall>tm \<in> set (teams st). team_ok tm"
    by (simp_all add: unique_inv_def)
  from idx len have idx': "nat (tid - 1) < length (teams st)" by simp
  have ms: "mset (all_picks (teams ?st)) = mset (all_picks (teams st) @ [p])"
    using all_picks_after_pick [OF idx'] by simp
  then have "mset (map name (all_picks (teams ?st))) = mset (map name (all_picks (teams st) @ [p]))"
    by (metis mset_map)
  then have "distinct (map name (all_picks (teams ?st))) =
      distinct (map name (all_picks (teams st) @ [p]))"
    by (rule mset_eq_imp_distinct_iff)
  moreover have "name p \<notin> name ` set (all_picks (teams st))"
    using new sub by blast
  ultimately have 1: "distinct (map name (all_picks (teams ?st)))"
    using dist by simp
  have "set (all_picks (teams ?st)) = set (all_picks (teams st) @ [p])"
    using ms by (rule mset_eq_setD)
  then have 2: "name ` set (all_picks (teams ?st)) \<subseteq> globally_drafted ?st"
    using sub by auto
  have 3: "\<forall>tm \<in> set (teams ?st). team_ok tm"
    using ok idx' by (rule teams_after_pick_ok)
  have 4: "length (teams ?st) = 10" using len by simp
  from 1 2 3 4 show ?thesis by (simp add: unique_inv_def del: after_pick_simps)
qed

lemma unique_inv_after_no_pick: "unique_inv st \<Longrightarrow> unique_inv (after_no_pick st tid a)"
  by (simp add: unique_inv_def)

lemma simulate_draft_state_unfold:
  "simulate_draft_state cls players =
     draft_loop cls (length players) (generate_snake_draft_order num_teams (actual_rounds players)) 0
       (drop 0 (generate_snake_draft_order num_teams (actual_rounds players)))
       \<lparr>teams = map Team [1..num_teams],
        team_algorithms = map (\<lambda>tid. construct cls players) [1..num_teams],
        globally_drafted = {}\<rparr>"
proof -
  have cp: "Player (name p) (position p) (team p) (adp_rank p) (Some (auction_value p))
          (Some (actual_points p)) (Some (bye_week p)) = p" for p :: player
    by (cases p) (simp add: Player_def)
  show ?thesis
    by (simp add: simulate_draft_state_def Let_def cp)
qed

lemma all_picks_initial: "all_picks (map Team xs) = []"
  by (induction xs) (simp_all add: all_picks_def Team_def)

lemma unique_inv_simulate: "unique_inv (simulate_draft_state cls players)"
  unfolding simulate_draft_state_unfold
proof (rule draft_loop_rule [where I = "\<lambda>i st. unique_inv st" and Q = unique_inv])
  show "unique_inv \<lparr>teams = map Team [1..num_teams],
        team_algorithms = map (\<lambda>tid. construct cls players) [1..num_teams],
        globally_drafted = {}\<rparr>"
    by (auto simp: unique_inv_def all_picks_initial num_teams_def team_ok_Team)
next
  fix i st p a
  let ?ord = "generate_snake_draft_order num_teams (actual_rounds players)"
  assume inv: "unique_inv st" and lt: "i < length ?ord"
    and pk: "pick_of cls ?ord i st = (Some p, a)"
  from pk have "name p \<notin> globally_drafted st"
    unfolding pick_of_def by (rule execute_draft_pick_Some [THEN conjunct1])
  with inv snake_order_index [OF lt]
  show "unique_inv (after_pick cls st (?ord ! i) p a)"
    by (rule unique_inv_after_pick)
qed (simp_all add: unique_inv_after_no_pick)

lemma simulate_unique_names:
  "distinct (map name (all_picks (teams (simulate_draft_state cls players))))
   \<and> distinct (map name (all_roster_players (teams (simulate_draft_state cls players))))"
proof -
  let ?ts = "teams (simulate_draft_state cls players)"
  have inv: "unique_inv (simulate_draft_state cls players)" by (rule unique_inv_simulate)
  then have d: "distinct (map name (all_picks ?ts))" by (simp add: unique_inv_def)
  from inv have "\<forall>tm \<in> set ?ts. mset (roster_players tm) \<subseteq># mset (draft_picks tm)"
    by (simp add: unique_inv_def team_ok_def)
  then have "mset (all_roster_players ?ts) \<subseteq># mset (all_picks ?ts)"
    by (rule all_roster_players_sub)
  then have "distinct (map name (all_roster_players ?ts))"
    using d by (rule distinct_map_mset_mono)
  with d show ?thesis by simp
qed

text \<open>
  C1 (amended). If a strategy's \<open>draft_player\<close> returns a player whose name is already
  in the engine's global drafted set, \<open>_execute_draft_pick\<close> answers with no player, and
  the pick loop leaves every roster and the global set as they were and goes on to the
  next pick-slot (or stops, under the 90% rule): the slot is skipped, not retried. For
  every strategy class and pool, no name occurs twice among the draft picks, nor among
  the roster entries, of the teams of a simulated draft.
\<close>

theorem conflicting_pick_skipped:
  "(draft_player cls (add_drafted cls (globally_drafted st) (team_algorithms st ! nat (tid - 1)))
       (teams st ! nat (tid - 1)) (calculate_picks_until_next i tid ord) = (Some p, a)
     \<and> name p \<in> globally_drafted st
    \<longrightarrow> execute_draft_pick cls (team_algorithms st ! nat (tid - 1)) (teams st ! nat (tid - 1))
            (calculate_picks_until_next i tid ord) (globally_drafted st) = (None, a)
        \<and> draft_loop cls n ord i (tid # rest) st =
            (if 9 * n \<le> 10 * card (globally_drafted st)
             then st\<lparr>team_algorithms := (team_algorithms st)[nat (tid - 1) := a]\<rparr>
             else draft_loop cls n ord (Suc i) rest
                    (st\<lparr>team_algorithms := (team_algorithms st)[nat (tid - 1) := a]\<rparr>)))
   \<and> distinct (map name (all_picks (teams (simulate_draft_state cls players))))
   \<and> distinct (map name (all_roster_players (teams (simulate_draft_state cls players))))"
proof (intro conjI impI)
  assume h: "draft_player cls (add_drafted cls (globally_drafted st) (team_algorithms st ! nat (tid - 1)))
       (teams st ! nat (tid - 1)) (calculate_picks_until_next i tid ord) = (Some p, a)
     \<and> name p \<in> globally_drafted st"
  from h [THEN conjunct1] h [THEN conjunct2]
  show ex: "execute_draft_pick cls (team_algorithms st ! nat (tid - 1)) (teams st ! nat (tid - 1))
            (calculate_picks_until_next i tid ord) (globally_drafted st) = (None, a)"
    by (rule execute_draft_pick_conflict)
  show "draft_loop cls n ord i (tid # rest) st =
            (if 9 * n \<le> 10 * card (globally_drafted st)
             then st\<lparr>team_algorithms := (team_algorithms st)[nat (tid - 1) := a]\<rparr>
             else draft_loop cls n ord (Suc i) rest
                    (st\<lparr>team_algorithms := (team_algorithms st)[nat (tid - 1) := a]\<rparr>))"
    by (simp add: ex Let_def)
next
  show "distinct (map name (all_picks (teams (simulate_draft_state cls players))))"
    using simulate_unique_names by blast
  show "distinct (map name (all_roster_players (teams (simulate_draft_state cls players))))"
    using simulate_unique_names by blast
qed

theorem conflicting_pick_skipped_witness:
  "map_option name
     (fst (draft_player first_only_class
        (add_drafted first_only_class (globally_drafted conflict_state)
           (team_algorithms conflict_state ! 1))
        (teams conflict_state ! 1) 11)) = Some ''Player1''
   \<and> ''Player1'' \<in> globally_drafted conflict_state
   \<and> fst (execute_draft_pick first_only_class (team_algorithms conflict_state ! 1)
        (teams conflict_state ! 1) 11 (globally_drafted conflict_state)) = None
   \<and> teams (draft_loop first_only_class 5 (generate_snake_draft_order 10 1) 1 [2] conflict_state)
       = teams conflict_state
   \<and> globally_drafted
        (draft_loop first_only_class 5 (generate_snake_draft_order 10 1) 1 [2] conflict_state)
       = {''Player1''}
   \<and> map calls (team_algorithms
        (draft_loop first_only_class 5 (generate_snake_draft_order 10 1) 1 [2] conflict_state))
       = [1, 1, 0, 0, 0, 0, 0, 0, 0, 0]"
proof -
  let ?st = conflict_state
  let ?ord = "generate_snake_draft_order 10 1"
  let ?p = "hd greedy_test_pool"
  let ?a = "\<lparr>pool = greedy_test_pool, calls = 1\<rparr>"
  have k: "calculate_picks_until_next 1 2 ?ord = 11"
    by (simp add: calculate_picks_until_next_def draft_position_def)
  have i1: "nat (2 - 1) = 1" by simp
  have alg: "team_algorithms ?st ! 1 = \<lparr>pool = greedy_test_pool, calls = 0\<rparr>"
    by (simp add: conflict_state_def num_teams_def upto.simps)
  have d0: "draft_player first_only_class
      (add_drafted first_only_class (globally_drafted ?st) (team_algorithms ?st ! 1))
      (teams ?st ! 1) 11 = (Some ?p, ?a)"
    unfolding alg by (simp add: first_only_class_def greedy_test_pool_def)
  have nm: "name ?p = ''Player1''" by (simp add: greedy_test_pool_def)
  have g: "globally_drafted ?st = {''Player1''}"
    by (simp add: conflict_state_def)
  have n: "name ?p \<in> globally_drafted ?st"
    by (simp add: g nm)
  have c: "\<not> 9 * (5::nat) \<le> 10 * card (globally_drafted ?st)"
    by (simp add: g)
  have prem: "draft_player first_only_class
      (add_drafted first_only_class (globally_drafted ?st) (team_algorithms ?st ! nat (2 - 1)))
      (teams ?st ! nat (2 - 1)) (calculate_picks_until_next 1 2 ?ord) = (Some ?p, ?a)
      \<and> name ?p \<in> globally_drafted ?st"
    unfolding i1 k using d0 n by (rule conjI)
  note r = conflicting_pick_skipped [of first_only_class ?st 2 1 ?ord ?p ?a 5 "[]",
      THEN conjunct1, rule_format, OF prem, unfolded i1 k]
  from r have ex: "execute_draft_pick first_only_class (team_algorithms ?st ! 1)
      (teams ?st ! 1) 11 (globally_drafted ?st) = (None, ?a)"
    by (rule conjunct1)
  from r c have lp: "draft_loop first_only_class 5 ?ord 1 [2] ?st =
      draft_loop first_only_class 5 ?ord (Suc 1) []
        (?st\<lparr>team_algorithms := (team_algorithms ?st)[1 := ?a]\<rparr>)"
    by (simp only: if_False)
  then have lp': "draft_loop first_only_class 5 ?ord 1 [2] ?st =
      ?st\<lparr>team_algorithms := (team_algorithms ?st)[1 := ?a]\<rparr>"
    by (simp only: draft_loop.simps(1))
  have cl: "map calls ((team_algorithms ?st)[1 := ?a]) = [1, 1, 0, 0, 0, 0, 0, 0, 0, 0]"
    by (simp add: conflict_state_def num_teams_def upto.simps)
  have 1: "map_option name
     (fst (draft_player first_only_class
        (add_drafted first_only_class (globally_drafted ?st) (team_algorithms ?st ! 1))
        (teams ?st ! 1) 11)) = Some ''Player1''"
    unfolding d0 by (simp add: nm)
  have 2: "''Player1'' \<in> globally_drafted ?st" by (simp add: g)
  have 3: "fst (execute_draft_pick first_only_class (team_algorithms ?st ! 1)
        (teams ?st ! 1) 11 (globally_drafted ?st)) = None"
    unfolding ex by simp
  have 4: "teams (draft_loop first_only_class 5 ?ord 1 [2] ?st) = teams ?st"
    unfolding lp' by simp
  have 5: "globally_drafted (draft_loop first_only_class 5 ?ord 1 [2] ?st) = {''Player1''}"
    unfolding lp' by (simp add: g)
  have 6: "map calls (team_algorithms (draft_loop first_only_class 5 ?ord 1 [2] ?st))
       = [1, 1, 0, 0, 0, 0, 0, 0, 0, 0]"
    unfolding lp' using cl by simp
  from 1 2 3 4 5 6 show ?thesis by (intro conjI)
qed

text \<open>
  The claim as stated fails: with the five players of \<open>greedy_test_pool\<close> (one round of
  ten picks) and a strategy that always offers its first player, team 1 takes
  \<open>Player1\<close>; each of the nine later pick-slots has its instance asked once, gets that
  drafted player, and ends without a player, although four players are undrafted.
\<close>

theorem conflicting_pick_counterexample:
  "map (map name \<circ> draft_picks) (teams (simulate_draft_state first_only_class greedy_test_pool))
     = [[''Player1''], [], [], [], [], [], [], [], [], []]
   \<and> map calls (team_algorithms (simulate_draft_state first_only_class greedy_test_pool))
     = [1, 1, 1, 1, 1, 1, 1, 1, 1, 1]
   \<and> globally_drafted (simulate_draft_state first_only_class greedy_test_pool) = {''Player1''}
   \<and> length greedy_test_pool = 5"
  by code_simp

lemma greedy_well_behaved: "well_behaved greedy_class available_players drafted_players"
proof -
  have 1: "set (available_players (construct greedy_class ps)) = (\<lambda>p. p\<lparr>bye_week := 0\<rparr>) ` set ps
      \<and> drafted_players (construct greedy_class ps) = {}" for ps
    by (simp add: greedy_class_def greedy_available) (simp add: GreedyDraftAlgorithm_def)
  have 2: "available_players (add_drafted greedy_class names a) = available_players a
      \<and> drafted_players (add_drafted greedy_class names a) = drafted_players a \<union> names"
    for names a
    by (simp add: greedy_class_def)
  have 3: "update_available_players greedy_class a = a" for a
    by (simp add: greedy_class_def)
  have 4: "case draft_player greedy_class a tm k of
             (None, a') \<Rightarrow>
               a' = a \<and> (get_needs tm = [] \<or> (\<forall>q \<in> set (available_players a). name q \<in> drafted_players a))
           | (Some p, a') \<Rightarrow>
               available_players a' = available_players a
               \<and> drafted_players a' = insert (name p) (drafted_players a)
               \<and> name p \<notin> drafted_players a \<and> p \<in> set (available_players a)" for a tm k
    using greedy_draft_player_cases [of a tm]
    by (auto simp: greedy_class_def split: prod.splits option.splits)
  show ?thesis
    unfolding well_behaved_def
    by (intro conjI allI) (rule 1 [THEN conjunct1], rule 1 [THEN conjunct2],
      rule 2 [THEN conjunct1], rule 2 [THEN conjunct2], rule 3, rule 4)
qed

lemma regret_well_behaved: "well_behaved regret_class all_players drafted_players"
proof -
  have 1: "set (all_players (construct regret_class ps)) = (\<lambda>p. p\<lparr>bye_week := 0\<rparr>) ` set ps
      \<and> drafted_players (construct regret_class ps) = {}" for ps
    by (simp add: regret_class_def regret_init_fields)
  have 2: "all_players (add_drafted regret_class names a) = all_players a
      \<and> drafted_players (add_drafted regret_class names a) = drafted_players a \<union> names"
    for names a
    by (simp add: regret_class_def)
  have 3: "update_available_players regret_class a = a" for a
    by (simp add: regret_class_def)
  have 4: "case draft_player regret_class a tm k of
             (None, a') \<Rightarrow>
               a' = a \<and> (get_needs tm = [] \<or> (\<forall>q \<in> set (all_players a). name q \<in> drafted_players a))
           | (Some p, a') \<Rightarrow>
               all_players a' = all_players a
               \<and> drafted_players a' = insert (name p) (drafted_players a)
               \<and> name p \<notin> drafted_players a \<and> p \<in> set (all_players a)" for a tm k
    using regret_draft_player_cases [of a tm k]
    by (auto simp: regret_class_def split: prod.splits option.splits)
  show ?thesis
    unfolding well_behaved_def
    by (intro conjI allI) (rule 1 [THEN conjunct1], rule 1 [THEN conjunct2],
      rule 2 [THEN conjunct1], rule 2 [THEN conjunct2], rule 3, rule 4)
qed

lemma well_behaved_draft_Some:
  assumes "well_behaved cls pool_of drafted_of" and "draft_player cls a tm k = (Some p, a')"
  shows "pool_of a' = pool_of a" "drafted_of a' = insert (name p) (drafted_of a)"
    "name p \<notin> drafted_of a" "p \<in> set (pool_of a)"
  using assms(1) [unfolded well_behaved_def, THEN conjunct2, THEN conjunct2, THEN conjunct2,
      rule_format, of a tm k]
  unfolding assms(2) by simp_all

lemma well_behaved_draft_None:
  assumes "well_behaved cls pool_of drafted_of" and "draft_player cls a tm k = (None, a')"
  shows "a' = a" "get_needs tm = [] \<or> (\<forall>q \<in> set (pool_of a). name q \<in> drafted_of a)"
  using assms(1) [unfolded well_behaved_def, THEN conjunct2, THEN conjunct2, THEN conjunct2,
      rule_format, of a tm k]
  unfolding assms(2) by simp_all

lemma well_behaved_add_drafted:
  assumes "well_behaved cls pool_of drafted_of"
  shows "pool_of (add_drafted cls names a) = pool_of a"
    "drafted_of (add_drafted cls names a) = drafted_of a \<union> names"
  using assms [unfolded well_behaved_def, THEN conjunct2, THEN conjunct1, rule_format, of names a]
  by simp_all

lemma well_behaved_hook:
  "well_behaved cls pool_of drafted_of \<Longrightarrow> update_available_players cls a = a"
  by (simp add: well_behaved_def)

lemma well_behaved_construct:
  assumes "well_behaved cls pool_of drafted_of"
  shows "set (pool_of (construct cls ps)) = (\<lambda>p. p\<lparr>bye_week := 0\<rparr>) ` set ps"
    "drafted_of (construct cls ps) = {}"
  using assms [unfolded well_behaved_def, THEN conjunct1, rule_format, of ps]
  by simp_all

text \<open>What a pick does to the instance asked, for a well-behaved class.\<close>

lemma pick_of_Some_wb:
  assumes wb: "well_behaved cls pool_of drafted_of"
    and pk: "pick_of cls ord i st = (Some p, a)"
  shows "name p \<notin> globally_drafted st"
    and "p \<in> set (pool_of (team_algorithms st ! nat (ord ! i - 1)))"
    and "pool_of a = pool_of (team_algorithms st ! nat (ord ! i - 1))"
    and "drafted_of a = insert (name p)
           (drafted_of (team_algorithms st ! nat (ord ! i - 1)) \<union> globally_drafted st)"
proof -
  let ?alg = "team_algorithms st ! nat (ord ! i - 1)"
  let ?a1 = "add_drafted cls (globally_drafted st) ?alg"
  from pk have ex: "name p \<notin> globally_drafted st"
    and d: "draft_player cls ?a1 (teams st ! nat (ord ! i - 1))
              (calculate_picks_until_next i (ord ! i) ord) = (Some p, a)"
    unfolding pick_of_def by (auto dest: execute_draft_pick_Some)
  note s = well_behaved_draft_Some [OF wb d] well_behaved_add_drafted [OF wb]
  show "name p \<notin> globally_drafted st" by (rule ex)
  show "p \<in> set (pool_of ?alg)" using s by simp
  show "pool_of a = pool_of ?alg" using s by simp
  show "drafted_of a = insert (name p) (drafted_of ?alg \<union> globally_drafted st)"
    using s by simp
qed

section \<open>Draft engine: picks come from the pool\<close>

lemma in_set_updateD: "x \<in> set (xs[i := y]) \<Longrightarrow> x = y \<or> x \<in> set xs"
  using set_update_subset_insert [of xs i y] by auto

lemma pick_of_None_pool:
  assumes wb: "well_behaved cls pool_of drafted_of"
    and pk: "pick_of cls ord i st = (None, a)"
  shows "pool_of a = pool_of (team_algorithms st ! nat (ord ! i - 1))"
proof -
  let ?alg = "team_algorithms st ! nat (ord ! i - 1)"
  let ?a1 = "add_drafted cls (globally_drafted st) ?alg"
  let ?tm = "teams st ! nat (ord ! i - 1)"
  let ?k = "calculate_picks_until_next i (ord ! i) ord"
  from pk have "draft_player cls ?a1 ?tm ?k = (None, a)
      \<or> (\<exists>p. draft_player cls ?a1 ?tm ?k = (Some p, a) \<and> name p \<in> globally_drafted st)"
    unfolding pick_of_def by (rule execute_draft_pick_None)
  then have "pool_of a = pool_of ?a1"
    using well_behaved_draft_None(1) [OF wb] well_behaved_draft_Some(1) [OF wb] by blast
  then show ?thesis by (simp add: well_behaved_add_drafted [OF wb])
qed

lemma pool_inv_after_pick:
  assumes wb: "well_behaved cls pool_of drafted_of"
    and inv: "pool_inv pool_of players st"
    and idx: "nat (ord ! i - 1) < 10"
    and pk: "pick_of cls ord i st = (Some p, a)"
  shows "pool_inv pool_of players (after_pick cls st (ord ! i) p a)"
proof -
  let ?idx = "nat (ord ! i - 1)"
  let ?C = "(\<lambda>p. p\<lparr>bye_week := 0\<rparr>) ` set players"
  let ?st = "after_pick cls st (ord ! i) p a"
  from inv have lt: "length (teams st) = 10" and la: "length (team_algorithms st) = 10"
    and pools: "\<forall>a \<in> set (team_algorithms st). set (pool_of a) = ?C"
    and tms: "\<forall>tm \<in> set (teams st). team_ok tm \<and> set (draft_picks tm) \<subseteq> ?C"
    by (simp_all add: pool_inv_def)
  have alg: "team_algorithms st ! ?idx \<in> set (team_algorithms st)"
    using idx la by simp
  have tm: "teams st ! ?idx \<in> set (teams st)"
    using idx lt by simp
  note pw = pick_of_Some_wb [OF wb pk]
  have pC: "p \<in> ?C" using pw(2) pools alg by blast
  have aC: "set (pool_of a) = ?C" using pw(3) pools alg by simp
  have 1: "\<forall>x \<in> set (team_algorithms ?st). set (pool_of x) = ?C"
  proof
    fix x assume "x \<in> set (team_algorithms ?st)"
    then obtain y where y: "y \<in> set ((team_algorithms st)[?idx := a])"
      and x: "x = update_available_players cls (add_drafted cls {name p} y)"
      by (auto simp: update_all_algorithms_def)
    from y have "set (pool_of y) = ?C"
      using in_set_updateD [OF y] aC pools by blast
    with x show "set (pool_of x) = ?C"
      by (simp add: well_behaved_hook [OF wb] well_behaved_add_drafted [OF wb])
  qed
  have 2: "\<forall>t \<in> set (teams ?st). team_ok t \<and> set (draft_picks t) \<subseteq> ?C"
  proof
    fix t assume t: "t \<in> set (teams ?st)"
    let ?new = "add_player (teams st ! ?idx) p
                  (Some (determine_roster_position p (teams st ! ?idx)))"
    from t have "t = ?new \<or> t \<in> set (teams st)"
      by (simp add: in_set_updateD)
    moreover have "team_ok ?new"
      using tms tm by (intro team_ok_add_player) blast
    moreover have "set (draft_picks ?new) \<subseteq> ?C"
      using tms tm pC by (auto simp: add_player_picks)
    ultimately show "team_ok t \<and> set (draft_picks t) \<subseteq> ?C"
      using tms by blast
  qed
  have 3: "length (teams ?st) = 10" "length (team_algorithms ?st) = 10"
    using lt la by (simp_all add: update_all_algorithms_def)
  from 1 2 3 show ?thesis
    unfolding pool_inv_def by (intro conjI)
qed

lemma pool_inv_after_no_pick:
  assumes wb: "well_behaved cls pool_of drafted_of"
    and inv: "pool_inv pool_of players st"
    and idx: "nat (ord ! i - 1) < 10"
    and pk: "pick_of cls ord i st = (None, a)"
  shows "pool_inv pool_of players (after_no_pick st (ord ! i) a)"
proof -
  let ?idx = "nat (ord ! i - 1)"
  let ?C = "(\<lambda>p. p\<lparr>bye_week := 0\<rparr>) ` set players"
  from inv have la: "length (team_algorithms st) = 10"
    and pools: "\<forall>a \<in> set (team_algorithms st). set (pool_of a) = ?C"
    by (simp_all add: pool_inv_def)
  have "team_algorithms st ! ?idx \<in> set (team_algorithms st)"
    using idx la by simp
  then have aC: "set (pool_of a) = ?C"
    using pick_of_None_pool [OF wb pk] pools by simp
  have "\<forall>x \<in> set ((team_algorithms st)[?idx := a]). set (pool_of x) = ?C"
    using aC pools by (auto dest: in_set_updateD)
  with inv show ?thesis
    by (simp add: pool_inv_def)
qed

lemma Team_fields [simp]:
  "draft_picks (Team i) = []" "roster (Team i) s = []" "total_points (Team i) = 0"
  by (simp_all add: Team_def)

lemma pool_inv_initial:
  assumes wb: "well_behaved cls pool_of drafted_of"
  shows "pool_inv pool_of players
     \<lparr>teams = map Team [1..num_teams],
      team_algorithms = map (\<lambda>tid. construct cls players) [1..num_teams],
      globally_drafted = {}\<rparr>"
  by (auto simp: pool_inv_def num_teams_def team_ok_Team well_behaved_construct [OF wb])

lemma pool_inv_simulate:
  assumes wb: "well_behaved cls pool_of drafted_of"
  shows "pool_inv pool_of players (simulate_draft_state cls players)"
  unfolding simulate_draft_state_unfold
proof (rule draft_loop_rule [where I = "\<lambda>i st. pool_inv pool_of players st"
      and Q = "pool_inv pool_of players"])
  show "pool_inv pool_of players
     \<lparr>teams = map Team [1..num_teams],
      team_algorithms = map (\<lambda>tid. construct cls players) [1..num_teams],
      globally_drafted = {}\<rparr>"
    using wb by (rule pool_inv_initial)
next
  fix i st p a
  let ?ord = "generate_snake_draft_order num_teams (actual_rounds players)"
  assume "pool_inv pool_of players st" "i < length ?ord" "pick_of cls ?ord i st = (Some p, a)"
  then show "pool_inv pool_of players (after_pick cls st (?ord ! i) p a)"
    using wb snake_order_index by (intro pool_inv_after_pick) auto
next
  fix i st a
  let ?ord = "generate_snake_draft_order num_teams (actual_rounds players)"
  assume "pool_inv pool_of players st" "i < length ?ord" "pick_of cls ?ord i st = (None, a)"
  then have "pool_inv pool_of players (after_no_pick st (?ord ! i) a)"
    using wb snake_order_index by (intro pool_inv_after_no_pick) auto
  then show "pool_inv pool_of players (after_no_pick st (?ord ! i) a)
      \<and> pool_inv pool_of players (after_no_pick st (?ord ! i) a)"
    by simp
qed simp_all

text \<open>A pool without kickers leaves the K slot of every team empty.\<close>

lemma no_kicker_incomplete:
  assumes wb: "well_behaved cls pool_of drafted_of"
    and nok: "\<forall>p \<in> set players. position p \<noteq> ''K''"
    and tm: "tm \<in> set (teams (simulate_draft_state cls players))"
  shows "\<not> is_complete tm"
proof -
  let ?C = "(\<lambda>p. p\<lparr>bye_week := 0\<rparr>) ` set players"
  from pool_inv_simulate [OF wb, of players] tm
  have ok: "team_ok tm" and sub: "set (draft_picks tm) \<subseteq> ?C"
    by (simp_all add: pool_inv_def)
  have "roster tm K = []"
  proof (rule ccontr)
    assume "roster tm K \<noteq> []"
    then obtain q where q: "q \<in> set (roster tm K)" by (cases "roster tm K") auto
    with ok have "slot_fits K q" by (simp add: team_ok_def)
    then have pos: "position q = ''K''" by (simp add: slot_fits_def)
    from q have "q \<in> set (roster_players tm)" by (auto simp: set_roster_players)
    moreover from ok have "set_mset (mset (roster_players tm)) \<subseteq> set_mset (mset (draft_picks tm))"
      unfolding team_ok_def by (intro set_mset_mono) simp
    ultimately have "q \<in> ?C" using sub by auto
    with nok pos show False by auto
  qed
  then have "get_needs tm \<noteq> []" by (rule empty_slot_needed)
  then show ?thesis by (simp add: is_complete_def)
qed

section \<open>Draft engine: a pool that covers the order\<close>

lemma count_list_distinct: "distinct xs \<Longrightarrow> count_list xs x = (if x \<in> set xs then 1 else 0)"
  by (induction xs) auto

lemma count_list_concat_map:
  "count_list (concat (map f ks)) x = sum_list (map (\<lambda>k. count_list (f k) x) ks)"
  by (induction ks) simp_all

lemma sum_list_const: "sum_list (map (\<lambda>k. c) ks) = length ks * (c::nat)"
  by (induction ks) simp_all

lemma count_list_rev: "count_list (rev xs) x = count_list xs x"
  by (induction xs) simp_all

lemma count_snake_order:
  "count_list (generate_snake_draft_order n r) t = (if 1 \<le> t \<and> t \<le> n then nat r else 0)"
proof -
  have "count_list (if even k then [1..n] else rev [1..n]) t = (if 1 \<le> t \<and> t \<le> n then 1 else 0)"
    for k :: nat
    by (simp add: count_list_rev count_list_distinct)
  then show ?thesis
    by (simp add: generate_snake_concat count_list_concat_map sum_list_const)
qed

lemma count_list_prefix_less:
  assumes "i < length xs"
  shows "count_list (take i xs) (xs ! i) < count_list xs (xs ! i)"
proof -
  have "count_list (take i xs @ xs ! i # drop (Suc i) xs) (xs ! i) =
      count_list (take i xs) (xs ! i) + (1 + count_list (drop (Suc i) xs) (xs ! i))"
    by simp
  then have "count_list xs (xs ! i) =
      count_list (take i xs) (xs ! i) + (1 + count_list (drop (Suc i) xs) (xs ! i))"
    by (simp only: id_take_nth_drop [OF assms, symmetric])
  then show ?thesis by simp
qed

lemma execute_draft_pick_accept:
  assumes "draft_player cls (add_drafted cls G alg) tm k = (Some p, a)" and "name p \<notin> G"
  shows "execute_draft_pick cls alg tm k G = (Some p, a)"
  using assms by (simp add: execute_draft_pick_def)

lemma full_inv_step:
  assumes wb: "well_behaved cls pool_of drafted_of"
    and inv: "full_inv pool_of drafted_of players ord i st"
    and lt: "i < length ord"
    and ids: "set ord \<subseteq> {1..10}"
    and cnt: "\<forall>t. count_list ord t \<le> 8"
    and len: "length ord \<le> length players"
    and dist: "distinct (map name players)"
  shows "\<exists>p a. pick_of cls ord i st = (Some p, a)
           \<and> full_inv pool_of drafted_of players ord (Suc i) (after_pick cls st (ord ! i) p a)"
proof -
  let ?idx = "nat (ord ! i - 1)"
  let ?C = "(\<lambda>p. p\<lparr>bye_week := 0\<rparr>) ` set players"
  let ?G = "globally_drafted st"
  let ?alg = "team_algorithms st ! ?idx"
  let ?tm = "teams st ! ?idx"
  let ?a1 = "add_drafted cls ?G ?alg"
  let ?k = "calculate_picks_until_next i (ord ! i) ord"
  from inv have pinv: "pool_inv pool_of players st"
    and dr: "\<forall>a \<in> set (team_algorithms st). drafted_of a \<subseteq> ?G"
    and fin: "finite ?G" and card: "card ?G = i"
    and G: "?G = name ` set (all_picks (teams st))"
    and counts: "\<forall>j < 10. length (draft_picks (teams st ! j)) = count_list (take i ord) (int j + 1)"
    unfolding full_inv_def by blast+
  from pinv have ltm: "length (teams st) = 10" and la: "length (team_algorithms st) = 10"
    and pools: "\<forall>a \<in> set (team_algorithms st). set (pool_of a) = ?C"
    and tms: "\<forall>tm \<in> set (teams st). team_ok tm \<and> set (draft_picks tm) \<subseteq> ?C"
    by (simp_all add: pool_inv_def)
  have "ord ! i \<in> set ord" using lt by simp
  then have "ord ! i \<in> {1..10}" using ids by blast
  then have oi: "1 \<le> ord ! i" "ord ! i \<le> 10" by simp_all
  then have idx: "?idx < 10" and idx_id: "int ?idx + 1 = ord ! i" by simp_all
  have alg: "?alg \<in> set (team_algorithms st)" using idx la by simp
  have tm: "?tm \<in> set (teams st)" using idx ltm by simp
  have pool_a1: "set (pool_of ?a1) = ?C"
    using pools alg by (simp add: well_behaved_add_drafted [OF wb])
  have dr_a1: "drafted_of ?a1 = ?G"
    using dr alg by (auto simp: well_behaved_add_drafted [OF wb])
  \<comment> \<open>the team still has a need\<close>
  have "length (draft_picks ?tm) = count_list (take i ord) (ord ! i)"
    using counts idx idx_id by simp
  also have "\<dots> < count_list ord (ord ! i)"
    using lt by (rule count_list_prefix_less)
  also have "\<dots> \<le> 8" using cnt by simp
  finally have picks: "length (draft_picks ?tm) < 8" .
  have "size (mset (roster_players ?tm)) \<le> size (mset (draft_picks ?tm))"
    using tms tm unfolding team_ok_def by (intro size_mset_mono) blast
  with picks have "length (roster_players ?tm) < 8" by simp
  then have needs: "get_needs ?tm \<noteq> []"
    using needs_empty_roster_full [of ?tm] by auto
  \<comment> \<open>some player of the pool is undrafted\<close>
  have avail: "\<not> (\<forall>q \<in> set (pool_of ?a1). name q \<in> drafted_of ?a1)"
  proof
    assume "\<forall>q \<in> set (pool_of ?a1). name q \<in> drafted_of ?a1"
    then have "name ` set players \<subseteq> ?G"
      unfolding pool_a1 dr_a1 by auto
    then have "card (name ` set players) \<le> card ?G"
      using fin by (rule card_mono [rotated])
    moreover have "card (name ` set players) = length players"
      using dist distinct_card [of "map name players"] by simp
    ultimately show False using card lt len by simp
  qed
  obtain r a where d: "draft_player cls ?a1 ?tm ?k = (r, a)"
    by (cases "draft_player cls ?a1 ?tm ?k")
  have "r \<noteq> None"
  proof
    assume "r = None"
    with d well_behaved_draft_None(2) [OF wb, of ?a1 ?tm ?k a] needs avail
    show False by simp
  qed
  then obtain p where r: "r = Some p" by auto
  note ds = well_behaved_draft_Some [OF wb d [unfolded r]]
  have newp: "name p \<notin> ?G" using ds(3) dr_a1 by simp
  have pk: "pick_of cls ord i st = (Some p, a)"
    unfolding pick_of_def using d [unfolded r] newp by (rule execute_draft_pick_accept)
  let ?st = "after_pick cls st (ord ! i) p a"
  have 1: "pool_inv pool_of players ?st"
    using wb pinv idx pk by (rule pool_inv_after_pick)
  have dr_a: "drafted_of a = insert (name p) ?G"
    using ds(2) dr_a1 by simp
  have 2: "\<forall>x \<in> set (team_algorithms ?st). drafted_of x \<subseteq> globally_drafted ?st"
  proof
    fix x assume "x \<in> set (team_algorithms ?st)"
    then obtain y where y: "y \<in> set ((team_algorithms st)[?idx := a])"
      and x: "x = update_available_players cls (add_drafted cls {name p} y)"
      by (auto simp: update_all_algorithms_def)
    from in_set_updateD [OF y] dr dr_a have "drafted_of y \<subseteq> insert (name p) ?G"
      by auto
    with x show "drafted_of x \<subseteq> globally_drafted ?st"
      by (auto simp: well_behaved_hook [OF wb] well_behaved_add_drafted [OF wb])
  qed
  have 3: "finite (globally_drafted ?st)" using fin by simp
  have 4: "card (globally_drafted ?st) = Suc i"
    using fin card newp by simp
  have "mset (all_picks (teams ?st)) = mset (all_picks (teams st)) + {#p#}"
    using idx ltm by (intro all_picks_after_pick) simp
  then have "set_mset (mset (all_picks (teams ?st))) = set_mset (mset (all_picks (teams st)) + {#p#})"
    by (rule arg_cong)
  then have sp: "set (all_picks (teams ?st)) = insert p (set (all_picks (teams st)))"
    by simp
  have 5: "globally_drafted ?st = name ` set (all_picks (teams ?st))"
    unfolding sp using G by simp
  have 6: "\<forall>j < 10. length (draft_picks (teams ?st ! j)) = count_list (take (Suc i) ord) (int j + 1)"
  proof (intro allI impI)
    fix j :: nat assume j: "j < 10"
    have tk: "take (Suc i) ord = take i ord @ [ord ! i]"
      using lt by (rule take_Suc_conv_app_nth)
    have eq: "(ord ! i = int j + 1) = (j = ?idx)"
      using oi by auto
    show "length (draft_picks (teams ?st ! j)) = count_list (take (Suc i) ord) (int j + 1)"
    proof (cases "j = ?idx")
      case True
      then have "ord ! i = int j + 1" using eq by simp
      with True counts j ltm show ?thesis
        by (simp add: tk add_player_picks)
    next
      case False
      then have "ord ! i \<noteq> int j + 1" using eq by simp
      with False counts j ltm show ?thesis
        by (simp add: tk)
    qed
  qed
  from 1 2 3 4 5 6 have "full_inv pool_of drafted_of players ord (Suc i) ?st"
    unfolding full_inv_def by (intro conjI)
  with pk show ?thesis by blast
qed

lemma full_inv_initial:
  assumes wb: "well_behaved cls pool_of drafted_of"
  shows "full_inv pool_of drafted_of players ord 0
     \<lparr>teams = map Team [1..num_teams],
      team_algorithms = map (\<lambda>tid. construct cls players) [1..num_teams],
      globally_drafted = {}\<rparr>"
proof -
  have "length (draft_picks (map Team [1..num_teams] ! j)) = 0" if "j < 10" for j
    using that by (simp add: num_teams_def)
  then show ?thesis
    unfolding full_inv_def
    by (auto simp: pool_inv_initial [OF wb] all_picks_initial well_behaved_construct [OF wb])
qed

lemma full_inv_loop:
  assumes wb: "well_behaved cls pool_of drafted_of"
    and ids: "set ord \<subseteq> {1..10}"
    and cnt: "\<forall>t. count_list ord t \<le> 8"
    and len: "length ord \<le> length players"
    and dist: "distinct (map name players)"
  shows "full_inv pool_of drafted_of players ord (length ord)
     (draft_loop cls n ord 0 (drop 0 ord)
        \<lparr>teams = map Team [1..num_teams],
         team_algorithms = map (\<lambda>tid. construct cls players) [1..num_teams],
         globally_drafted = {}\<rparr>)"
proof (rule draft_loop_rule [where I = "full_inv pool_of drafted_of players ord"
      and Q = "full_inv pool_of drafted_of players ord (length ord)"])
  show "full_inv pool_of drafted_of players ord 0
     \<lparr>teams = map Team [1..num_teams],
      team_algorithms = map (\<lambda>tid. construct cls players) [1..num_teams],
      globally_drafted = {}\<rparr>"
    using wb by (rule full_inv_initial)
next
  fix i st p a
  assume inv: "full_inv pool_of drafted_of players ord i st" and lt: "i < length ord"
    and pk: "pick_of cls ord i st = (Some p, a)"
  from full_inv_step [OF wb inv lt ids cnt len dist] obtain p' a'
    where "pick_of cls ord i st = (Some p', a')"
      and f: "full_inv pool_of drafted_of players ord (Suc i) (after_pick cls st (ord ! i) p' a')"
    by blast
  with pk have "p' = p" "a' = a" by simp_all
  with f show "full_inv pool_of drafted_of players ord (Suc i) (after_pick cls st (ord ! i) p a)"
    by simp
next
  fix i st a
  assume inv: "full_inv pool_of drafted_of players ord i st" and lt: "i < length ord"
    and pk: "pick_of cls ord i st = (None, a)"
  from full_inv_step [OF wb inv lt ids cnt len dist] obtain p' a'
    where "pick_of cls ord i st = (Some p', a')"
    by blast
  with pk have False by simp
  then show "full_inv pool_of drafted_of players ord (Suc i) (after_no_pick st (ord ! i) a)
      \<and> full_inv pool_of drafted_of players ord (length ord) (after_no_pick st (ord ! i) a)"
    by (rule FalseE)
qed simp_all

lemma actual_rounds_80: "length players = 80 \<Longrightarrow> actual_rounds players = 8"
  by (simp add: actual_rounds_def num_teams_def total_picks_def)

lemma full_draft:
  assumes wb: "well_behaved cls pool_of drafted_of"
    and len: "length players = 80"
    and dist: "distinct (map name players)"
  shows "drafted_all players (simulate_draft cls players)"
proof -
  let ?ord = "generate_snake_draft_order num_teams (actual_rounds players)"
  let ?st = "simulate_draft_state cls players"
  let ?ts = "teams ?st"
  let ?C = "(\<lambda>p. p\<lparr>bye_week := 0\<rparr>) ` set players"
  have ord: "?ord = generate_snake_draft_order 10 8"
    by (simp add: actual_rounds_80 [OF len] num_teams_def)
  have "length (generate_snake_draft_order 10 8) = 80" by code_simp
  then have lo: "length ?ord = 80" by (simp only: ord)
  have ids: "set ?ord \<subseteq> {1..10}"
    unfolding ord by (rule set_snake_order)
  have cnt: "count_list ?ord t = (if 1 \<le> t \<and> t \<le> 10 then 8 else 0)" for t
    unfolding ord by (simp add: count_snake_order)
  have "full_inv pool_of drafted_of players ?ord (length ?ord) ?st"
    unfolding simulate_draft_state_unfold
    using wb ids _ _ dist
  proof (rule full_inv_loop)
    show "\<forall>t. count_list ?ord t \<le> 8" by (simp add: cnt)
    show "length ?ord \<le> length players" by (simp add: lo len)
  qed
  then have inv: "full_inv pool_of drafted_of players ?ord 80 ?st" by (simp only: lo)
  then have pinv: "pool_inv pool_of players ?st"
    and fin: "finite (globally_drafted ?st)" and card: "card (globally_drafted ?st) = 80"
    and G: "globally_drafted ?st = name ` set (all_picks ?ts)"
    and counts: "\<forall>j < 10. length (draft_picks (?ts ! j)) = count_list (take 80 ?ord) (int j + 1)"
    unfolding full_inv_def by blast+
  from pinv have lts: "length ?ts = 10"
    and tms: "\<forall>tm \<in> set ?ts. team_ok tm \<and> set (draft_picks tm) \<subseteq> ?C"
    by (simp_all add: pool_inv_def)
  have picks8: "length (draft_picks tm) = 8" if "tm \<in> set ?ts" for tm
  proof -
    from that obtain j where j: "j < 10" "tm = ?ts ! j"
      using lts by (metis in_set_conv_nth)
    have "take 80 ?ord = ?ord" using lo by simp
    with counts j show ?thesis by (simp add: cnt)
  qed
  have names: "name ` set players \<subseteq> globally_drafted ?st"
  proof -
    have "set (all_picks ?ts) \<subseteq> ?C"
      using tms by (auto simp: all_picks_def)
    then have sub: "globally_drafted ?st \<subseteq> name ` set players"
      unfolding G by auto
    have "card (name ` set players) = 80"
      using dist len distinct_card [of "map name players"] by simp
    with sub card have "globally_drafted ?st = name ` set players"
      by (intro card_subset_eq) simp_all
    then show ?thesis by simp
  qed
  have inj: "inj_on name (set players)"
    using dist by (simp add: distinct_map)
  have every: "\<exists>tm \<in> set ?ts. p\<lparr>bye_week := 0\<rparr> \<in> set (draft_picks tm)
      \<and> (slot_of (position p) \<noteq> None \<longrightarrow> p\<lparr>bye_week := 0\<rparr> \<in> set (roster_players tm))"
    if p: "p \<in> set players" for p
  proof -
    from p names have "name p \<in> name ` set (all_picks ?ts)" unfolding G by blast
    then obtain q tm where q: "tm \<in> set ?ts" "q \<in> set (draft_picks tm)" "name q = name p"
      by (auto simp: all_picks_def)
    with tms obtain p' where p': "p' \<in> set players" "q = p'\<lparr>bye_week := 0\<rparr>" by blast
    with q have "name p' = name p" by simp
    with inj p p' have "p' = p" by (auto dest: inj_onD)
    with p' q have in_picks: "p\<lparr>bye_week := 0\<rparr> \<in> set (draft_picks tm)" by simp
    moreover have "p\<lparr>bye_week := 0\<rparr> \<in> set (roster_players tm)" if "slot_of (position p) \<noteq> None"
      using tms q(1) in_picks that unfolding team_ok_def by auto
    ultimately show ?thesis using q(1) by blast
  qed
  have ne: "players \<noteq> []" using len by auto
  have "simulate_draft cls players = Some (?ts ! 4, ?ts)"
    using ne by (simp add: simulate_draft_def Let_def draft_position_def)
  then show ?thesis
    unfolding drafted_all_def using lts picks8 every by simp
qed

lemma no_kicker_pool_facts:
  "length no_kicker_pool = 80" "distinct (map name no_kicker_pool)"
  "filter (\<lambda>p. position p = ''K'') no_kicker_pool = []"
  by code_simp+

lemma incomplete_draft:
  assumes wb: "well_behaved cls pool_of drafted_of"
    and nok: "\<forall>p \<in> set players. position p \<noteq> ''K''"
    and ne: "players \<noteq> []"
  shows "simulate_draft cls players \<noteq> None
         \<and> \<not> is_complete (fst (the (simulate_draft cls players)))"
proof -
  let ?ts = "teams (simulate_draft_state cls players)"
  have "length ?ts = 10"
    using pool_inv_simulate [OF wb, of players] by (simp add: pool_inv_def)
  then have "?ts ! 4 \<in> set ?ts" by simp
  then have "\<not> is_complete (?ts ! 4)"
    using wb nok by (intro no_kicker_incomplete) auto
  then show ?thesis
    using ne by (simp add: simulate_draft_def Let_def draft_position_def)
qed

text \<open>
  C2 (amended). For every simulated draft, with the greedy or the regret strategy, whose
  pool has exactly 80 players with pairwise different names, \<open>simulate_draft\<close> returns
  ten teams with eight draft picks each, and every player of the pool (as the strategy
  copied it) is among the picks of some team and in one of that team's roster slots when
  its position is a roster key. The rosters need not be complete.
\<close>

theorem full_pool_all_drafted:
  assumes "length players = 80" and "distinct (map name players)"
  shows "drafted_all players (simulate_draft greedy_class players)
         \<and> drafted_all players (simulate_draft regret_class players)"
  using full_draft [OF greedy_well_behaved assms] full_draft [OF regret_well_behaved assms]
  by (rule conjI)

theorem full_pool_all_drafted_witness:
  "length no_kicker_pool = 80
   \<and> distinct (map name no_kicker_pool)
   \<and> drafted_all no_kicker_pool (simulate_draft greedy_class no_kicker_pool)
   \<and> drafted_all no_kicker_pool (simulate_draft regret_class no_kicker_pool)"
proof -
  note l = no_kicker_pool_facts(1) and d = no_kicker_pool_facts(2)
  from full_pool_all_drafted [OF l d] l d show ?thesis by (intro conjI) simp_all
qed

text \<open>
  The claim as stated fails: \<open>no_kicker_pool\<close> has 80 players with different names, and
  after the draft the tracked team's roster is not complete (no team has a kicker).
\<close>

theorem full_pool_counterexample:
  "length no_kicker_pool = 80
   \<and> distinct (map name no_kicker_pool)
   \<and> simulate_draft greedy_class no_kicker_pool \<noteq> None
   \<and> \<not> is_complete (fst (the (simulate_draft greedy_class no_kicker_pool)))
   \<and> get_needs (fst (the (simulate_draft greedy_class no_kicker_pool))) \<noteq> []"
proof -
  note l = no_kicker_pool_facts(1) and d = no_kicker_pool_facts(2)
  have nok: "\<forall>p \<in> set no_kicker_pool. position p \<noteq> ''K''"
    using no_kicker_pool_facts(3) by (simp add: filter_empty_conv)
  have ne: "no_kicker_pool \<noteq> []" using l by auto
  note r = incomplete_draft [OF greedy_well_behaved nok ne]
  from r have "get_needs (fst (the (simulate_draft greedy_class no_kicker_pool))) \<noteq> []"
    by (simp add: is_complete_def)
  with l d r show ?thesis by (intro conjI) simp_all
qed

end
